theory Spec2Isabelle
  imports Main
begin

section \<open>Classes and their metadata\<close>

text \<open>
  A shallow embedding of \<^verbatim>\<open>polymodels/models.py\<close>.

  A Python class is a value carrying what the module reads from it: \<^verbatim>\<open>__module__\<close>,
  \<^verbatim>\<open>__name__\<close> (Django's \<^verbatim>\<open>_meta.object_name\<close>), \<^verbatim>\<open>_meta.abstract\<close>,
  \<^verbatim>\<open>_meta.proxy\<close>, the outcome of \<^verbatim>\<open>getattr(cls, 'content_type_field_name')\<close>
  (\<open>None\<close> when it raises \<^verbatim>\<open>AttributeError\<close>), the fields \<^verbatim>\<open>_meta.get_field\<close> can find,
  and \<^verbatim>\<open>__bases__\<close>. The bases are nested, so a class hierarchy is well founded as it is in
  Python, where the bases of a class exist before the class does. The test
  \<^verbatim>\<open>parent is sender\<close> is equality of these values.

  A field is a \<^verbatim>\<open>ForeignKey\<close> (or an instance of a subclass of it) with the class its
  \<^verbatim>\<open>rel.to\<close> names, or any other field.
\<close>

type_synonym class_ref = "string \<times> string"

datatype field = is_ForeignKey: ForeignKey (rel_to: class_ref) | OtherField

datatype pyclass = PyClass
  (cmodule: string)
  (object_name: string)
  (abstract: bool)
  (proxy: bool)
  (content_type_field_name: "string option")
  (fields: "(string \<times> field) list")
  (bases: "pyclass list")

definition class_ref :: "pyclass \<Rightarrow> class_ref" where
  "class_ref c = (cmodule c, object_name c)"

definition get_field :: "pyclass \<Rightarrow> string \<Rightarrow> field option" where
  "get_field c name = map_of (fields c) name"

text \<open>The classes the module imports or defines itself.\<close>

definition pyobject :: pyclass where
  "pyobject = PyClass ''builtins'' ''object'' True False None [] []"

definition Model :: pyclass where
  "Model = PyClass ''django.db.models'' ''Model'' True False None [] [pyobject]"

definition ContentType :: pyclass where
  "ContentType = PyClass ''django.contrib.contenttypes.models'' ''ContentType''
     False False None [] [Model]"

definition BasePolymorphicModel :: pyclass where
  "BasePolymorphicModel = PyClass ''polymodels.models'' ''BasePolymorphicModel''
     True False None [] [Model]"

definition PolymorphicModel :: pyclass where
  "PolymorphicModel = PyClass ''polymodels.models'' ''PolymorphicModel''
     True False (Some ''content_type'')
     [(''content_type'', ForeignKey (class_ref ContentType))] [BasePolymorphicModel]"

lemma sum_size_bases: "sum_list (map size (bases c)) < size c"
  by (cases c) (simp add: size_list_conv_sum_list less_Suc_eq_le)

lemma size_bases: "b \<in> set (bases c) \<Longrightarrow> size b < size c"
  by (cases c) (auto simp: less_Suc_eq_le intro: size_list_estimation')

text \<open>\<^verbatim>\<open>issubclass(c, t)\<close>: \<open>t\<close> is \<open>c\<close> or is reached from \<open>c\<close> through \<^verbatim>\<open>__bases__\<close>.\<close>

function issubclass :: "pyclass \<Rightarrow> pyclass \<Rightarrow> bool" where
  "issubclass c t = (c = t \<or> (\<exists>b \<in> set (bases c). issubclass b t))"
  by pat_completeness auto
termination
  by (relation "measure (\<lambda>(c, t). size c)") (auto dest: size_bases)

declare issubclass.simps [simp del]

section \<open>Errors\<close>

text \<open>
  Every exception the module raises, or lets through, is a value. The three
  \<^verbatim>\<open>ImproperlyConfigured\<close> messages keep the values formatted into them. \<open>TypeError\<close> is
  the one raised by \<^verbatim>\<open>type_cast\<close>, with the instance and the target of its message.
\<close>

type_synonym ref = nat

datatype config_problem =
    MissingFieldName
  | InexistentField string string string
  | NotForeignKeyToContentType string string string

datatype error =
    ImproperlyConfigured config_problem
  | AttributeError string
  | UnboundLocalError string
  | GetattrError string
  | TypeError ref pyclass
  | IsinstanceArgError
  | NoSuchObject ref

section \<open>The hierarchy registrar\<close>

text \<open>
  \<^verbatim>\<open>EMPTY_ACCESSOR = ([], None, '')\<close>. An entry of a \<^verbatim>\<open>_subclass_accessors\<close> dictionary is
  the accessor names, the proxy class or \<open>None\<close>, and the lookup string. The attributes the
  module sets on \<^verbatim>\<open>_meta\<close> objects are a store: per class the dictionary (\<open>None\<close> while the
  attribute does not exist) and the flag \<^verbatim>\<open>_is_polymorphic_root\<close>.
\<close>

type_synonym accessor = "string list \<times> pyclass option \<times> string"

type_synonym accessor_table = "pyclass \<rightharpoonup> accessor"

definition EMPTY_ACCESSOR :: accessor where
  "EMPTY_ACCESSOR = ([], None, [])"

record meta =
  subclass_accessors :: "pyclass \<rightharpoonup> accessor_table"
  is_polymorphic_root :: "pyclass \<rightharpoonup> bool"

definition empty_meta :: meta where
  "empty_meta = \<lparr>subclass_accessors = Map.empty, is_polymorphic_root = Map.empty\<rparr>"

definition LOOKUP_SEP :: string where
  "LOOKUP_SEP = ''__''"

text \<open>\<^verbatim>\<open>sep.join(xs)\<close>.\<close>

fun join :: "string \<Rightarrow> string list \<Rightarrow> string" where
  "join sep [] = []"
| "join sep [x] = x"
| "join sep (x # y # ys) = x @ sep @ join sep (y # ys)"

text \<open>\<^verbatim>\<open>str.lower()\<close> on the ASCII letters of a class name.\<close>

definition lower_char :: "char \<Rightarrow> char" where
  "lower_char c =
     (let n = (of_char c :: nat) in if 65 \<le> n \<and> n \<le> 90 then char_of (n + 32) else c)"

definition lower :: "string \<Rightarrow> string" where
  "lower s = map lower_char s"

text \<open>
  The \<^verbatim>\<open>while parents:\<close> loop of \<^verbatim>\<open>prepare_polymorphic_model\<close>. Its variables are the
  work list \<open>parents\<close>, \<open>attrs\<close>, \<open>is_polymorphic_root\<close> (\<open>None\<close> while the name is unbound)
  and the store. It returns them at the exit, or at the statement that raised:
  \<^verbatim>\<open>parent_opts._subclass_accessors\<close> raises \<^verbatim>\<open>AttributeError\<close> on a parent whose
  metadata has no such attribute.
\<close>

function prepare_loop ::
  "pyclass \<Rightarrow> pyclass option \<Rightarrow> pyclass list \<Rightarrow> string list \<Rightarrow> bool option \<Rightarrow> meta
   \<Rightarrow> error option \<times> bool option \<times> meta" where
  "prepare_loop sender prx [] attrs root m = (None, root, m)"
| "prepare_loop sender prx (parent # parents) attrs root m =
     (if issubclass parent BasePolymorphicModel then
        (if \<not> abstract parent then
           (let is_root = Some (parent = sender);
                lookup = join LOOKUP_SEP (take 1 attrs)
            in case subclass_accessors m parent of
                 None \<Rightarrow> (Some (AttributeError ''_subclass_accessors''), is_root, m)
               | Some tbl \<Rightarrow>
                   (let m' = m\<lparr>subclass_accessors :=
                               (subclass_accessors m)(parent \<mapsto> tbl(sender \<mapsto> (attrs, prx, lookup)))\<rparr>;
                        attrs' = (if \<not> proxy parent
                                  then lower (object_name parent) # attrs else attrs)
                    in prepare_loop sender prx (bases parent @ parents) attrs' is_root m'))
         else prepare_loop sender prx (bases parent @ parents) attrs root m)
      else prepare_loop sender prx parents attrs root m)"
  by pat_completeness auto

termination
proof (relation "measure (\<lambda>(sender, prx, parents, attrs, root, m). sum_list (map size parents))")
  show "wf (measure (\<lambda>(sender, prx, parents, attrs, root, m). sum_list (map size parents)))"
    by simp
next
  fix sender :: pyclass and prx :: "pyclass option" and parent :: pyclass
    and parents :: "pyclass list" and attrs :: "string list" and root :: "bool option"
    and m :: meta
  assume "\<not> issubclass parent BasePolymorphicModel"
  show "((sender, prx, parents, attrs, root, m), (sender, prx, parent # parents, attrs, root, m))
        \<in> measure (\<lambda>(sender, prx, parents, attrs, root, m). sum_list (map size parents))"
    by (cases parent) simp
qed (use sum_size_bases in \<open>auto simp: add.commute intro: add_strict_right_mono\<close>)

declare prepare_loop.simps [simp del]

text \<open>
  \<^verbatim>\<open>prepare_polymorphic_model(sender)\<close>, the \<^verbatim>\<open>class_prepared\<close> handler. It returns the
  exception raised, if any, and the store as the handler leaves it.
\<close>

definition prepare_polymorphic_model :: "pyclass \<Rightarrow> meta \<Rightarrow> error option \<times> meta" where
  "prepare_polymorphic_model sender m =
     (if issubclass sender BasePolymorphicModel then
        (case content_type_field_name sender of
           None \<Rightarrow> (Some (ImproperlyConfigured MissingFieldName), m)
         | Some name \<Rightarrow>
             (case get_field sender name of
                None \<Rightarrow> (Some (ImproperlyConfigured
                          (InexistentField (cmodule sender) (object_name sender) name)), m)
              | Some content_type_field \<Rightarrow>
                  (if \<not> is_ForeignKey content_type_field
                      \<or> rel_to content_type_field \<noteq> class_ref ContentType
                   then (Some (ImproperlyConfigured
                          (NotForeignKeyToContentType (cmodule sender) (object_name sender) name)), m)
                   else
                     (let m1 = m\<lparr>subclass_accessors := (subclass_accessors m)(sender \<mapsto> Map.empty)\<rparr>;
                          prx = (if proxy sender then Some sender else None)
                      in case prepare_loop sender prx [sender] [] None m1 of
                           (Some e, root, m2) \<Rightarrow> (Some e, m2)
                         | (None, None, m2) \<Rightarrow> (Some (UnboundLocalError ''is_polymorphic_root''), m2)
                         | (None, Some r, m2) \<Rightarrow>
                             (None, m2\<lparr>is_polymorphic_root := (is_polymorphic_root m2)(sender \<mapsto> r)\<rparr>)))))
      else (None, m))"

text \<open>
  The classes the loop pops, in the order it pops them: the work list starts as
  \<^verbatim>\<open>[sender]\<close>, \<^verbatim>\<open>parents.pop(0)\<close> takes its head, and
  \<^verbatim>\<open>parents = list(parent.__bases__) + parents\<close> runs only under
  \<^verbatim>\<open>if issubclass(parent, BasePolymorphicModel)\<close>.
\<close>

function visited :: "pyclass list \<Rightarrow> pyclass list" where
  "visited [] = []"
| "visited (parent # parents) =
     parent # (if issubclass parent BasePolymorphicModel
               then visited (bases parent @ parents) else visited parents)"
  by pat_completeness auto
termination
proof (relation "measure (\<lambda>parents. sum_list (map size parents))")
  fix parent :: pyclass and parents :: "pyclass list"
  show "(parents, parent # parents) \<in> measure (\<lambda>parents. sum_list (map size parents))"
    by (cases parent) simp
qed (use sum_size_bases in \<open>auto simp: add.commute intro: add_strict_right_mono\<close>)

declare visited.simps [simp del]

text \<open>The popped classes for which the loop body writes an entry.\<close>

definition concrete_polymorphic :: "pyclass \<Rightarrow> bool" where
  "concrete_polymorphic c = (issubclass c BasePolymorphicModel \<and> \<not> abstract c)"

definition concrete_parents :: "pyclass list \<Rightarrow> pyclass list" where
  "concrete_parents parents = filter concrete_polymorphic (visited parents)"

text \<open>
  \<^verbatim>\<open>c._meta._subclass_accessors.get(k)\<close>, \<open>None\<close> also when the class has no dictionary.
\<close>

definition entry :: "meta \<Rightarrow> pyclass \<Rightarrow> pyclass \<Rightarrow> accessor option" where
  "entry m c k = (case subclass_accessors m c of None \<Rightarrow> None | Some tbl \<Rightarrow> tbl k)"

text \<open>
  Classes are prepared one after the other, in the order of their definition; the first
  exception ends the import.
\<close>

fun register_all :: "pyclass list \<Rightarrow> meta \<Rightarrow> error option \<times> meta" where
  "register_all [] m = (None, m)"
| "register_all (c # cs) m =
     (case prepare_polymorphic_model c m of
        (Some e, m') \<Rightarrow> (Some e, m')
      | (None, m') \<Rightarrow> register_all cs m')"

section \<open>Instances\<close>

text \<open>
  Instances live in a heap and are referred to by their index, so that "the same object"
  and "a copy" differ. An instance carries its class (\<^verbatim>\<open>self.__class__\<close>), \<^verbatim>\<open>pk\<close>,
  \<^verbatim>\<open>_state.db\<close>, the values \<^verbatim>\<open>getattr\<close> finds for its fields, and the instances
  \<^verbatim>\<open>getattr\<close> finds for its one-to-one accessors; a name absent from a map is a
  \<^verbatim>\<open>getattr\<close> that raises. A field value is a \<^verbatim>\<open>ContentType\<close> row or anything else.

  The content type framework is a parameter: \<^verbatim>\<open>get_content_type(cls, db)\<close> of
  \<^verbatim>\<open>utils\<close> and \<^verbatim>\<open>ContentType.model_class()\<close>.
\<close>

type_synonym ctype = nat

datatype fval = ContentTypeVal ctype | OtherVal int

record model_instance =
  inst_class :: pyclass
  pk :: "int option"
  state_db :: "string option"
  field_values :: "string \<rightharpoonup> fval"
  related :: "string \<rightharpoonup> ref"

type_synonym heap = "model_instance list"

record registry =
  get_content_type :: "pyclass \<Rightarrow> string option \<Rightarrow> ctype"
  model_class :: "ctype \<Rightarrow> pyclass option"

definition deref :: "heap \<Rightarrow> ref \<Rightarrow> model_instance option" where
  "deref h r = (if r < length h then Some (h ! r) else None)"

text \<open>\<^verbatim>\<open>isinstance(obj, to)\<close>.\<close>

definition isinstance :: "heap \<Rightarrow> ref \<Rightarrow> pyclass \<Rightarrow> bool" where
  "isinstance h r to = (case deref h r of None \<Rightarrow> False | Some inst \<Rightarrow> issubclass (inst_class inst) to)"

text \<open>\<^verbatim>\<open>getattr(type_casted, attr)\<close> on an accessor name.\<close>

definition getattr_related :: "heap \<Rightarrow> ref \<Rightarrow> string \<Rightarrow> error + ref" where
  "getattr_related h r attr =
     (case deref h r of
        None \<Rightarrow> Inl (NoSuchObject r)
      | Some inst \<Rightarrow>
          (case related inst attr of
             None \<Rightarrow> Inl (GetattrError attr)
           | Some r' \<Rightarrow> Inr r'))"

text \<open>The loop \<^verbatim>\<open>for attr in attrs: type_casted = getattr(type_casted, attr)\<close>.\<close>

fun walk :: "heap \<Rightarrow> ref \<Rightarrow> string list \<Rightarrow> error + ref" where
  "walk h type_casted [] = Inr type_casted"
| "walk h type_casted (attr # attrs) =
     (case getattr_related h type_casted attr of
        Inl e \<Rightarrow> Inl e
      | Inr type_casted' \<Rightarrow> walk h type_casted' attrs)"

text \<open>
  Modelled from the spec: \<^verbatim>\<open>copy_fields\<close> of \<^verbatim>\<open>polymodels/utils.py\<close>, which is not
  among the sources. The spec has it copy the field values of the object into a new
  envelope of the proxy type: a new object, of class \<open>prx\<close>, with the values of the source.
\<close>

definition copy_fields :: "heap \<Rightarrow> ref \<Rightarrow> pyclass \<Rightarrow> (error + ref) \<times> heap" where
  "copy_fields h src prx =
     (case deref h src of
        None \<Rightarrow> (Inl (NoSuchObject src), h)
      | Some inst \<Rightarrow> (Inr (length h), h @ [inst\<lparr>inst_class := prx\<rparr>]))"

section \<open>The type caster\<close>

text \<open>
  The first statement of \<^verbatim>\<open>type_cast\<close>: the target given, or the class of the content
  type the discriminator field holds. \<^verbatim>\<open>model_class()\<close> may return \<^verbatim>\<open>None\<close>.
\<close>

definition resolve_to :: "registry \<Rightarrow> model_instance \<Rightarrow> pyclass option \<Rightarrow> error + pyclass option" where
  "resolve_to reg inst to =
     (case to of
        Some t \<Rightarrow> Inr (Some t)
      | None \<Rightarrow>
          (case content_type_field_name (inst_class inst) of
             None \<Rightarrow> Inl (AttributeError ''content_type_field_name'')
           | Some name \<Rightarrow>
               (case field_values inst name of
                  None \<Rightarrow> Inl (GetattrError name)
                | Some (ContentTypeVal content_type) \<Rightarrow> Inr (model_class reg content_type)
                | Some (OtherVal v) \<Rightarrow> Inl (AttributeError ''model_class''))))"

text \<open>\<^verbatim>\<open>self._meta._subclass_accessors.get(to, EMPTY_ACCESSOR)\<close>.\<close>

definition get_accessor :: "accessor_table \<Rightarrow> pyclass option \<Rightarrow> accessor" where
  "get_accessor tbl to =
     (case to of
        None \<Rightarrow> EMPTY_ACCESSOR
      | Some t \<Rightarrow> (case tbl t of None \<Rightarrow> EMPTY_ACCESSOR | Some a \<Rightarrow> a))"

text \<open>
  \<^verbatim>\<open>type_cast(self, to=None)\<close>. The result is the object returned or the exception raised,
  with the heap, which only \<^verbatim>\<open>copy_fields\<close> extends.
\<close>

definition type_cast ::
  "meta \<Rightarrow> registry \<Rightarrow> heap \<Rightarrow> ref \<Rightarrow> pyclass option \<Rightarrow> (error + ref) \<times> heap" where
  "type_cast m reg h self to =
     (case deref h self of
        None \<Rightarrow> (Inl (NoSuchObject self), h)
      | Some inst \<Rightarrow>
          (case resolve_to reg inst to of
             Inl e \<Rightarrow> (Inl e, h)
           | Inr to' \<Rightarrow>
               (case subclass_accessors m (inst_class inst) of
                  None \<Rightarrow> (Inl (AttributeError ''_subclass_accessors''), h)
                | Some tbl \<Rightarrow>
                    (case get_accessor tbl to' of (attrs, prx, lookup) \<Rightarrow>
                       (case walk h self attrs of
                          Inl e \<Rightarrow> (Inl e, h)
                        | Inr type_casted \<Rightarrow>
                            (case (case prx of
                                     None \<Rightarrow> (Inr type_casted, h)
                                   | Some p \<Rightarrow> copy_fields h type_casted p) of
                               (Inl e, h') \<Rightarrow> (Inl e, h')
                             | (Inr type_casted', h') \<Rightarrow>
                                 (case to' of
                                    None \<Rightarrow> (Inl IsinstanceArgError, h')
                                  | Some t \<Rightarrow>
                                      (if \<not> isinstance h' type_casted' t
                                       then (Inl (TypeError self t), h')
                                       else (Inr type_casted', h')))))))))"

section \<open>The save hook\<close>

text \<open>
  \<^verbatim>\<open>save(self, *args, **kwargs)\<close>. The save of the superclass is a parameter; the hook
  returns what it returns.
\<close>

definition save ::
  "registry \<Rightarrow> (ref \<Rightarrow> heap \<Rightarrow> (error + 'r) \<times> heap) \<Rightarrow> heap \<Rightarrow> ref \<Rightarrow> (error + 'r) \<times> heap" where
  "save reg super_save h self =
     (case deref h self of
        None \<Rightarrow> (Inl (NoSuchObject self), h)
      | Some inst \<Rightarrow>
          (if pk inst = None then
             (let content_type = get_content_type reg (inst_class inst) (state_db inst)
              in case content_type_field_name (inst_class inst) of
                   None \<Rightarrow> (Inl (AttributeError ''content_type_field_name''), h)
                 | Some name \<Rightarrow>
                     super_save self
                       (h[self := inst\<lparr>field_values :=
                                        (field_values inst)(name \<mapsto> ContentTypeVal content_type)\<rparr>]))
           else super_save self h))"

section \<open>Example hierarchies\<close>

text \<open>Root, Middle and Leaf: concrete classes, each the one base of the next.\<close>

definition Root :: pyclass where
  "Root = PyClass ''app.models'' ''Root'' False False (Some ''content_type'')
     [(''content_type'', ForeignKey (class_ref ContentType))] [PolymorphicModel]"

definition Middle :: pyclass where
  "Middle = PyClass ''app.models'' ''Middle'' False False (Some ''content_type'')
     [(''content_type'', ForeignKey (class_ref ContentType))] [Root]"

definition Leaf :: pyclass where
  "Leaf = PyClass ''app.models'' ''Leaf'' False False (Some ''content_type'')
     [(''content_type'', ForeignKey (class_ref ContentType))] [Middle]"

text \<open>A proxy of Root.\<close>

definition RootProxy :: pyclass where
  "RootProxy = PyClass ''app.models'' ''RootProxy'' False True (Some ''content_type'')
     [(''content_type'', ForeignKey (class_ref ContentType))] [Root]"

text \<open>Two abstract polymorphic mixins and a concrete class with both as bases.\<close>

definition MixinA :: pyclass where
  "MixinA = PyClass ''app.models'' ''MixinA'' True False (Some ''content_type'')
     [(''content_type'', ForeignKey (class_ref ContentType))] [PolymorphicModel]"

definition MixinB :: pyclass where
  "MixinB = PyClass ''app.models'' ''MixinB'' True False (Some ''content_type'')
     [(''content_type'', ForeignKey (class_ref ContentType))] [PolymorphicModel]"

definition Diamond :: pyclass where
  "Diamond = PyClass ''app.models'' ''Diamond'' False False (Some ''content_type'')
     [(''content_type'', ForeignKey (class_ref ContentType))] [MixinA, MixinB]"

section \<open>Auxiliary definitions\<close>

text \<open>
  The loop as a recursion over the concrete polymorphic classes it pops, which are the
  ones its body acts on: the same reads and writes, in the same order. Lemma
  \<open>prepare_loop_write_entries\<close> proves that it computes what the loop computes.
\<close>

fun write_entries ::
  "pyclass \<Rightarrow> pyclass option \<Rightarrow> pyclass list \<Rightarrow> string list \<Rightarrow> bool option \<Rightarrow> meta
   \<Rightarrow> error option \<times> bool option \<times> meta" where
  "write_entries sender prx [] attrs root m = (None, root, m)"
| "write_entries sender prx (p # ps) attrs root m =
     (case subclass_accessors m p of
        None \<Rightarrow> (Some (AttributeError ''_subclass_accessors''), Some (p = sender), m)
      | Some tbl \<Rightarrow>
          write_entries sender prx ps
            (if \<not> proxy p then lower (object_name p) # attrs else attrs)
            (Some (p = sender))
            (m\<lparr>subclass_accessors :=
                 (subclass_accessors m)
                 (p \<mapsto> tbl(sender \<mapsto> (attrs, prx, join LOOKUP_SEP (take 1 attrs))))\<rparr>))"

text \<open>
  The accessor names the loop has accumulated once it has popped the concrete polymorphic
  classes \<open>ps\<close>, starting from none: each \<^verbatim>\<open>attrs.insert(0, ...)\<close> puts the lowercase
  name of a class that is not a proxy in front.
\<close>

definition accessor_names :: "pyclass list \<Rightarrow> string list" where
  "accessor_names ps = rev (map (\<lambda>p. lower (object_name p)) (filter (\<lambda>p. \<not> proxy p) ps))"

text \<open>The three checks of lines 56 to 77 of the source all pass.\<close>

definition discriminator_checks :: "pyclass \<Rightarrow> bool" where
  "discriminator_checks sender =
     (case content_type_field_name sender of
        None \<Rightarrow> False
      | Some name \<Rightarrow>
          (case get_field sender name of
             None \<Rightarrow> False
           | Some f \<Rightarrow> is_ForeignKey f \<and> rel_to f = class_ref ContentType))"

text \<open>\<^verbatim>\<open>proxy = sender if opts.proxy else None\<close>.\<close>

definition proxy_marker :: "pyclass \<Rightarrow> pyclass option" where
  "proxy_marker sender = (if proxy sender then Some sender else None)"

text \<open>\<^verbatim>\<open>setattr(opts, '_subclass_accessors', {})\<close>.\<close>

definition fresh_table :: "pyclass \<Rightarrow> meta \<Rightarrow> meta" where
  "fresh_table sender m = m\<lparr>subclass_accessors := (subclass_accessors m)(sender \<mapsto> Map.empty)\<rparr>"

text \<open>A polymorphic class that declares no \<^verbatim>\<open>content_type_field_name\<close>.\<close>

definition NoFieldName :: pyclass where
  "NoFieldName = PyClass ''app.models'' ''NoFieldName'' False False None [] [BasePolymorphicModel]"

text \<open>
  A content type registry for the example classes, and a heap: a Root row whose accessors
  lead to its Middle and Leaf rows (objects 0, 1 and 2), a Root row with no child row (3),
  an unsaved Leaf (4), a saved Leaf whose discriminator names Root (5), and an instance of
  the proxy (6).
\<close>

definition example_registry :: registry where
  "example_registry =
     \<lparr>get_content_type = (\<lambda>c db. if c = Root then 1 else if c = Middle then 2
                                  else if c = Leaf then 3 else if c = RootProxy then 4 else 0),
      model_class = (\<lambda>n. if n = 1 then Some Root else if n = 2 then Some Middle
                           else if n = 3 then Some Leaf else if n = 4 then Some RootProxy
                           else None)\<rparr>"

definition example_heap :: heap where
  "example_heap =
     [\<lparr>inst_class = Root, pk = Some 1, state_db = None,
       field_values = [''content_type'' \<mapsto> ContentTypeVal 3], related = [''middle'' \<mapsto> 1]\<rparr>,
      \<lparr>inst_class = Middle, pk = Some 1, state_db = None,
       field_values = [''content_type'' \<mapsto> ContentTypeVal 3], related = [''leaf'' \<mapsto> 2]\<rparr>,
      \<lparr>inst_class = Leaf, pk = Some 1, state_db = None,
       field_values = [''content_type'' \<mapsto> ContentTypeVal 3], related = Map.empty\<rparr>,
      \<lparr>inst_class = Root, pk = Some 2, state_db = None,
       field_values = [''content_type'' \<mapsto> ContentTypeVal 1], related = Map.empty\<rparr>,
      \<lparr>inst_class = Leaf, pk = None, state_db = None,
       field_values = Map.empty, related = Map.empty\<rparr>,
      \<lparr>inst_class = Leaf, pk = Some 7, state_db = None,
       field_values = [''content_type'' \<mapsto> ContentTypeVal 1], related = Map.empty\<rparr>,
      \<lparr>inst_class = RootProxy, pk = Some 2, state_db = None,
       field_values = [''content_type'' \<mapsto> ContentTypeVal 4], related = Map.empty\<rparr>]"

text \<open>The store once Root, Middle, Leaf and the proxy have been prepared.\<close>

definition example_meta :: meta where
  "example_meta = snd (register_all [Root, Middle, Leaf, RootProxy] empty_meta)"

text \<open>A superclass \<^verbatim>\<open>save\<close> that succeeds and leaves the heap as it is.\<close>

definition plain_save :: "ref \<Rightarrow> heap \<Rightarrow> (error + unit) \<times> heap" where
  "plain_save r h = (Inr (), h)"

text \<open>\<^verbatim>\<open>getattr(self, self.content_type_field_name)\<close>, \<open>None\<close> when it raises.\<close>

definition discriminator :: "heap \<Rightarrow> ref \<Rightarrow> fval option" where
  "discriminator h r =
     (case deref h r of
        None \<Rightarrow> None
      | Some inst \<Rightarrow>
          (case content_type_field_name (inst_class inst) of
             None \<Rightarrow> None
           | Some name \<Rightarrow> field_values inst name))"

text \<open>
  Single inheritance all the way up: no class has more than one base. The method
  resolution order of such a class is the class followed by that of its base.
\<close>

function single_inheritance :: "pyclass \<Rightarrow> bool" where
  "single_inheritance c =
     (case bases c of [] \<Rightarrow> True | [b] \<Rightarrow> single_inheritance b | b # b' # bs \<Rightarrow> False)"
  by pat_completeness auto
termination
  by (relation "measure size") (auto intro: size_bases)

declare single_inheritance.simps [simp del]

text \<open>The method resolution order of a class with single inheritance.\<close>

function base_chain :: "pyclass \<Rightarrow> pyclass list" where
  "base_chain c = c # (case bases c of [] \<Rightarrow> [] | [b] \<Rightarrow> base_chain b | b # b' # bs \<Rightarrow> [])"
  by pat_completeness auto
termination
  by (relation "measure size") (auto intro: size_bases)

declare base_chain.simps [simp del]

section \<open>Subclasses and the traversal\<close>

lemma issubclass_refl [simp]: "issubclass c c"
  by (subst issubclass.simps) simp

lemma issubclass_base: "b \<in> set (bases c) \<Longrightarrow> issubclass b t \<Longrightarrow> issubclass c t"
  by (subst issubclass.simps) auto

lemma issubclass_trans: "issubclass a b \<Longrightarrow> issubclass b c \<Longrightarrow> issubclass a c"
proof (induction a b rule: issubclass.induct)
  case (1 a b)
  from "1.prems"(1) consider "a = b" | x where "x \<in> set (bases a)" "issubclass x b"
    by (subst (asm) issubclass.simps) auto
  then show ?case
  proof cases
    case 1
    with "1.prems" show ?thesis by simp
  next
    case 2
    with "1.IH" "1.prems"(2) have "issubclass x c" by blast
    with 2 show ?thesis by (blast intro: issubclass_base)
  qed
qed

lemma issubclass_size: "issubclass c t \<Longrightarrow> c \<noteq> t \<Longrightarrow> size t < size c"
proof (induction c t rule: issubclass.induct)
  case (1 c t)
  from "1.prems" obtain x where x: "x \<in> set (bases c)" "issubclass x t"
    by (subst (asm) issubclass.simps) auto
  have "size x < size c" using x(1) by (rule size_bases)
  moreover have "size t \<le> size x"
  proof (cases "x = t")
    case True then show ?thesis by simp
  next
    case False
    with "1.IH" x show ?thesis by (simp add: less_imp_le)
  qed
  ultimately show ?case by simp
qed

lemma issubclass_antisym: "issubclass a b \<Longrightarrow> issubclass b a \<Longrightarrow> a = b"
  using issubclass_size [of a b] issubclass_size [of b a] by fastforce

lemma visited_Nil [simp]: "visited [] = []"
  by (simp add: visited.simps)

lemma visited_Cons:
  "visited (p # ps) =
     p # (if issubclass p BasePolymorphicModel then visited (bases p @ ps) else visited ps)"
  by (simp add: visited.simps)

lemma concrete_parents_Nil [simp]: "concrete_parents [] = []"
  by (simp add: concrete_parents_def)

lemma concrete_parents_Cons:
  "concrete_parents (p # ps) =
     (if issubclass p BasePolymorphicModel
      then (if \<not> abstract p then p # concrete_parents (bases p @ ps)
            else concrete_parents (bases p @ ps))
      else concrete_parents ps)"
  by (simp add: concrete_parents_def visited_Cons concrete_polymorphic_def)

lemma prepare_loop_write_entries:
  "prepare_loop sender prx ps attrs root m
     = write_entries sender prx (concrete_parents ps) attrs root m"
proof (induction sender prx ps attrs root m rule: prepare_loop.induct)
  case (1 sender prx attrs root m)
  show ?case by (simp add: prepare_loop.simps)
next
  case (2 sender prx parent parents attrs root m)
  show ?case
  proof (cases "issubclass parent BasePolymorphicModel")
    case False
    with "2.IH"(3) show ?thesis
      by (simp add: prepare_loop.simps concrete_parents_Cons)
  next
    case poly: True
    show ?thesis
    proof (cases "abstract parent")
      case True
      with poly "2.IH"(2) show ?thesis
        by (simp add: prepare_loop.simps concrete_parents_Cons)
    next
      case conc: False
      show ?thesis
      proof (cases "subclass_accessors m parent")
        case None
        with poly conc show ?thesis
          by (simp add: prepare_loop.simps concrete_parents_Cons)
      next
        case (Some tbl)
        from "2.IH"(1) [OF poly conc refl refl Some refl refl] poly conc Some
        show ?thesis
          by (simp add: prepare_loop.simps concrete_parents_Cons)
      qed
    qed
  qed
qed

section \<open>The entries the loop writes\<close>

lemma join_take_1: "join sep (take 1 a) = (case a of [] \<Rightarrow> [] | x # xs \<Rightarrow> x)"
  by (cases a) simp_all

lemma join_take_Suc_0: "join sep (take (Suc 0) a) = (case a of [] \<Rightarrow> [] | x # xs \<Rightarrow> x)"
  by (cases a) simp_all

lemma entry_upd:
  "entry (m\<lparr>subclass_accessors := (subclass_accessors m)(p \<mapsto> tbl)\<rparr>) c k
     = (if c = p then tbl k else entry m c k)"
  by (simp add: entry_def)

lemma write_entries_error:
  "fst (write_entries sender prx ps attrs root m) = None
   \<or> fst (write_entries sender prx ps attrs root m) = Some (AttributeError ''_subclass_accessors'')"
  by (induction ps arbitrary: attrs root m) (auto split: option.splits)

lemma write_entries_root_field:
  "is_polymorphic_root (snd (snd (write_entries sender prx ps attrs root m))) = is_polymorphic_root m"
  by (induction ps arbitrary: attrs root m) (auto split: option.splits)

lemma write_entries_dom:
  "(subclass_accessors (snd (snd (write_entries sender prx ps attrs root m))) c = None)
     = (subclass_accessors m c = None)"
  by (induction ps arbitrary: attrs root m) (auto split: option.splits)

lemma write_entries_root:
  "fst (write_entries sender prx ps attrs root m) = None \<Longrightarrow>
   fst (snd (write_entries sender prx ps attrs root m))
     = (if ps = [] then root else Some (last ps = sender))"
  by (induction ps arbitrary: attrs root m) (auto split: option.splits)

lemma write_entries_unvisited:
  "c \<notin> set ps \<Longrightarrow>
   subclass_accessors (snd (snd (write_entries sender prx ps attrs root m))) c = subclass_accessors m c"
  by (induction ps arbitrary: attrs root m) (auto split: option.splits)

lemma write_entries_other_key:
  "k \<noteq> sender \<Longrightarrow>
   entry (snd (snd (write_entries sender prx ps attrs root m))) c k = entry m c k"
  by (induction ps arbitrary: attrs root m) (auto simp: entry_upd split: option.splits, auto simp: entry_def)

lemma write_entries_new:
  "entry (snd (snd (write_entries sender prx ps attrs root m))) c k = Some e \<Longrightarrow>
   entry m c k = Some e
   \<or> (k = sender \<and> c \<in> set ps \<and> (\<exists>a. e = (a, prx, join LOOKUP_SEP (take 1 a))))"
proof (induction ps arbitrary: attrs root m)
  case Nil
  then show ?case by simp
next
  case (Cons p ps)
  show ?case
  proof (cases "subclass_accessors m p")
    case None
    with Cons.prems show ?thesis by simp
  next
    case (Some tbl)
    let ?m1 = "m\<lparr>subclass_accessors :=
                 (subclass_accessors m)
                 (p \<mapsto> tbl(sender \<mapsto> (attrs, prx, join LOOKUP_SEP (take 1 attrs))))\<rparr>"
    from Cons.prems Some
    have "entry ?m1 c k = Some e
          \<or> (k = sender \<and> c \<in> set ps \<and> (\<exists>a. e = (a, prx, join LOOKUP_SEP (take 1 a))))"
      by (intro Cons.IH) simp
    moreover have "entry ?m1 c k = Some e \<Longrightarrow>
       entry m c k = Some e \<or> (k = sender \<and> c = p \<and> e = (attrs, prx, join LOOKUP_SEP (take 1 attrs)))"
      using Some by (auto simp: entry_upd entry_def split: if_splits)
    ultimately show ?thesis by auto
  qed
qed

lemma write_entries_success:
  "(fst (write_entries sender prx ps attrs root m) = None)
     = (\<forall>p \<in> set ps. subclass_accessors m p \<noteq> None)"
  by (induction ps arbitrary: attrs root m) (auto split: option.splits)

lemma write_entries_entry:
  "fst (write_entries sender prx ps attrs root m) = None \<Longrightarrow> i < length ps \<Longrightarrow>
   ps ! i \<notin> set (drop (Suc i) ps) \<Longrightarrow>
   entry (snd (snd (write_entries sender prx ps attrs root m))) (ps ! i) sender
     = Some (accessor_names (take i ps) @ attrs, prx,
             join LOOKUP_SEP (take 1 (accessor_names (take i ps) @ attrs)))"
proof (induction ps arbitrary: attrs root m i)
  case Nil
  then show ?case by simp
next
  case (Cons p ps)
  from Cons.prems(1) obtain tbl where tbl: "subclass_accessors m p = Some tbl"
    by (auto split: option.splits)
  let ?attrs1 = "if \<not> proxy p then lower (object_name p) # attrs else attrs"
  let ?m1 = "m\<lparr>subclass_accessors :=
               (subclass_accessors m)
               (p \<mapsto> tbl(sender \<mapsto> (attrs, prx, join LOOKUP_SEP (take 1 attrs))))\<rparr>"
  have step: "write_entries sender prx (p # ps) attrs root m
               = write_entries sender prx ps ?attrs1 (Some (p = sender)) ?m1"
    using tbl by simp
  show ?case
  proof (cases i)
    case 0
    with Cons.prems(3) have "p \<notin> set ps" by simp
    then have "subclass_accessors (snd (snd (write_entries sender prx ps ?attrs1 (Some (p = sender)) ?m1))) p
                 = subclass_accessors ?m1 p"
      by (rule write_entries_unvisited)
    with 0 show ?thesis
      unfolding step by (simp add: entry_def accessor_names_def)
  next
    case (Suc j)
    with Cons.prems have j: "j < length ps" "ps ! j \<notin> set (drop (Suc j) ps)"
      by simp_all
    from Cons.prems(1) have ok: "fst (write_entries sender prx ps ?attrs1 (Some (p = sender)) ?m1) = None"
      unfolding step .
    have names: "accessor_names (take (Suc j) (p # ps)) @ attrs = accessor_names (take j ps) @ ?attrs1"
      by (simp add: accessor_names_def)
    from Cons.IH [OF ok j] show ?thesis
      unfolding step Suc names by simp
  qed
qed

section \<open>Preparing one class\<close>

lemma prepare_not_polymorphic:
  "\<not> issubclass sender BasePolymorphicModel \<Longrightarrow> prepare_polymorphic_model sender m = (None, m)"
  by (simp add: prepare_polymorphic_model_def)

lemma prepare_checks_fail:
  "issubclass sender BasePolymorphicModel \<Longrightarrow> \<not> discriminator_checks sender \<Longrightarrow>
   \<exists>p. prepare_polymorphic_model sender m = (Some (ImproperlyConfigured p), m)"
  by (auto simp: prepare_polymorphic_model_def discriminator_checks_def split: option.splits)

lemma prepare_checks_pass:
  assumes "issubclass sender BasePolymorphicModel" "discriminator_checks sender"
  shows "prepare_polymorphic_model sender m =
     (case write_entries sender (proxy_marker sender) (concrete_parents [sender]) [] None
             (fresh_table sender m) of
        (Some e, root, m2) \<Rightarrow> (Some e, m2)
      | (None, None, m2) \<Rightarrow> (Some (UnboundLocalError ''is_polymorphic_root''), m2)
      | (None, Some r, m2) \<Rightarrow>
          (None, m2\<lparr>is_polymorphic_root := (is_polymorphic_root m2)(sender \<mapsto> r)\<rparr>))"
  using assms
  by (auto simp: prepare_polymorphic_model_def discriminator_checks_def proxy_marker_def
      fresh_table_def prepare_loop_write_entries Let_def split: option.splits)

lemma prepare_error_kinds:
  assumes "issubclass sender BasePolymorphicModel" "discriminator_checks sender"
  shows "fst (prepare_polymorphic_model sender m) \<noteq> Some (ImproperlyConfigured p)"
proof -
  let ?w = "write_entries sender (proxy_marker sender) (concrete_parents [sender]) [] None
             (fresh_table sender m)"
  from write_entries_error [of sender "proxy_marker sender" "concrete_parents [sender]" "[]" None
      "fresh_table sender m"]
  show ?thesis
    unfolding prepare_checks_pass [OF assms]
    by (cases ?w) (auto split: option.splits)
qed

lemma entry_root_upd [simp]:
  "entry (m\<lparr>is_polymorphic_root := r\<rparr>) c k = entry m c k"
  by (simp add: entry_def)

lemma entry_fresh_table:
  "entry (fresh_table sender m) c k = (if c = sender then None else entry m c k)"
  by (simp add: entry_def fresh_table_def)

text \<open>What a preparation that completes has done.\<close>

lemma prepare_success:
  assumes "issubclass sender BasePolymorphicModel"
    and "fst (prepare_polymorphic_model sender m) = None"
  shows "discriminator_checks sender"
    and "fst (write_entries sender (proxy_marker sender) (concrete_parents [sender]) [] None
             (fresh_table sender m)) = None"
    and "concrete_parents [sender] \<noteq> []"
    and "snd (prepare_polymorphic_model sender m) =
           (snd (snd (write_entries sender (proxy_marker sender) (concrete_parents [sender]) [] None
             (fresh_table sender m))))
           \<lparr>is_polymorphic_root :=
              (is_polymorphic_root (snd (snd (write_entries sender (proxy_marker sender)
                  (concrete_parents [sender]) [] None (fresh_table sender m)))))
              (sender \<mapsto> (last (concrete_parents [sender]) = sender))\<rparr>"
proof -
  let ?w = "write_entries sender (proxy_marker sender) (concrete_parents [sender]) [] None
             (fresh_table sender m)"
  show c: "discriminator_checks sender"
    using assms prepare_checks_fail [of sender m] by fastforce
  note eq = prepare_checks_pass [OF assms(1) c, of m]
  show w: "fst ?w = None"
    using assms(2) unfolding eq by (cases ?w) (auto split: option.splits)
  obtain r where r: "fst (snd ?w) = Some r"
    using assms(2) w unfolding eq by (cases ?w) (auto split: option.splits)
  from write_entries_root [OF w] r
  show ne: "concrete_parents [sender] \<noteq> []" by (auto split: if_splits)
  from write_entries_root [OF w] r ne have "r = (last (concrete_parents [sender]) = sender)"
    by simp
  with r w show "snd (prepare_polymorphic_model sender m) =
           (snd (snd ?w))\<lparr>is_polymorphic_root :=
              (is_polymorphic_root (snd (snd ?w)))
              (sender \<mapsto> (last (concrete_parents [sender]) = sender))\<rparr>"
    unfolding eq by (cases ?w) (auto split: option.splits)
qed

text \<open>Where an entry found after a preparation comes from, whatever the outcome.\<close>

lemma prepare_entry_cases:
  assumes "entry (snd (prepare_polymorphic_model sender m)) c k = Some e"
  shows "(entry m c k = Some e \<and> c \<noteq> sender) \<or> (entry m c k = Some e \<and> \<not> (issubclass sender BasePolymorphicModel \<and> discriminator_checks sender))
         \<or> (k = sender \<and> c \<in> set (concrete_parents [sender])
             \<and> (\<exists>a. e = (a, proxy_marker sender, join LOOKUP_SEP (take 1 a))))"
proof (cases "issubclass sender BasePolymorphicModel \<and> discriminator_checks sender")
  case False
  then have "snd (prepare_polymorphic_model sender m) = m"
    using prepare_not_polymorphic [of sender m] prepare_checks_fail [of sender m] by fastforce
  with assms False show ?thesis by simp
next
  case True
  let ?w = "write_entries sender (proxy_marker sender) (concrete_parents [sender]) [] None
             (fresh_table sender m)"
  have "entry (snd (prepare_polymorphic_model sender m)) c k = entry (snd (snd ?w)) c k"
    using True by (cases ?w) (auto simp: prepare_checks_pass split: option.splits)
  with assms have "entry (snd (snd ?w)) c k = Some e" by simp
  from write_entries_new [OF this] show ?thesis
    by (auto simp: entry_fresh_table split: if_splits)
qed

lemma prepare_other_entry:
  assumes "c \<noteq> sender" "k \<noteq> sender"
  shows "entry (snd (prepare_polymorphic_model sender m)) c k = entry m c k"
proof (cases "issubclass sender BasePolymorphicModel \<and> discriminator_checks sender")
  case False
  then have "snd (prepare_polymorphic_model sender m) = m"
    using prepare_not_polymorphic [of sender m] prepare_checks_fail [of sender m] by fastforce
  then show ?thesis by simp
next
  case True
  let ?w = "write_entries sender (proxy_marker sender) (concrete_parents [sender]) [] None
             (fresh_table sender m)"
  have "entry (snd (prepare_polymorphic_model sender m)) c k = entry (snd (snd ?w)) c k"
    using True by (cases ?w) (auto simp: prepare_checks_pass split: option.splits)
  also have "\<dots> = entry (fresh_table sender m) c k"
    using assms(2) by (rule write_entries_other_key)
  finally show ?thesis using assms(1) by (simp add: entry_fresh_table)
qed

lemma visited_superclass:
  "p \<in> set (visited ps) \<Longrightarrow> \<exists>q \<in> set ps. issubclass q p"
proof (induction ps rule: visited.induct)
  case 1
  then show ?case by simp
next
  case (2 parent parents)
  show ?case
  proof (cases "p = parent")
    case True
    then show ?thesis by auto
  next
    case False
    show ?thesis
    proof (cases "issubclass parent BasePolymorphicModel")
      case True
      with "2.prems" False have "p \<in> set (visited (bases parent @ parents))"
        by (simp add: visited_Cons)
      with "2.IH"(1) True obtain q where "q \<in> set (bases parent @ parents)" "issubclass q p"
        by blast
      then show ?thesis by (auto intro: issubclass_base)
    next
      case nonpoly: False
      with "2.prems" False have "p \<in> set (visited parents)"
        by (simp add: visited_Cons)
      with "2.IH"(2) nonpoly show ?thesis by auto
    qed
  qed
qed

lemma visited_complete:
  "q \<in> set ps \<Longrightarrow> issubclass q t \<Longrightarrow> issubclass t BasePolymorphicModel \<Longrightarrow>
   t \<in> set (visited ps)"
proof (induction ps arbitrary: q rule: visited.induct)
  case 1
  then show ?case by simp
next
  case (2 parent parents)
  show ?case
  proof (cases "issubclass parent BasePolymorphicModel")
    case True
    show ?thesis
    proof (cases "q = parent")
      case q: True
      show ?thesis
      proof (cases "t = parent")
        case True
        then show ?thesis by (simp add: visited_Cons)
      next
        case False
        with "2.prems"(2) q obtain b where "b \<in> set (bases parent)" "issubclass b t"
          by (subst (asm) issubclass.simps) auto
        with "2.IH"(1) [OF True, of b] "2.prems"(3) True show ?thesis
          by (simp add: visited_Cons)
      qed
    next
      case False
      with "2.prems" have "q \<in> set (bases parent @ parents)" by simp
      from "2.IH"(1) [OF True this "2.prems"(2,3)] True show ?thesis
        by (simp add: visited_Cons)
    qed
  next
    case nonpoly: False
    have "q \<noteq> parent"
      using nonpoly "2.prems"(2,3) issubclass_trans by blast
    with "2.prems" have "q \<in> set parents" by simp
    from "2.IH"(2) [OF nonpoly this "2.prems"(2,3)] nonpoly show ?thesis
      by (simp add: visited_Cons)
  qed
qed

lemma set_concrete_parents:
  "set (concrete_parents [sender]) = {a. issubclass sender a \<and> concrete_polymorphic a}"
proof -
  have "a \<in> set (visited [sender]) \<Longrightarrow> issubclass sender a" for a
    using visited_superclass [of a "[sender]"] by simp
  moreover have "issubclass sender a \<Longrightarrow> concrete_polymorphic a \<Longrightarrow> a \<in> set (visited [sender])" for a
    using visited_complete [of sender "[sender]" a] by (simp add: concrete_polymorphic_def)
  ultimately show ?thesis by (auto simp: concrete_parents_def)
qed

lemma visited_tail_smaller:
  "p \<in> set (tl (visited [sender])) \<Longrightarrow> size p < size sender"
proof -
  assume p: "p \<in> set (tl (visited [sender]))"
  then have "p \<in> set (visited (bases sender))"
    by (auto simp: visited_Cons split: if_splits)
  then obtain q where q: "q \<in> set (bases sender)" "issubclass q p"
    using visited_superclass by blast
  have "size p \<le> size q"
    using issubclass_size [OF q(2)] by (cases "q = p") auto
  with size_bases [OF q(1)] show ?thesis by simp
qed

lemma concrete_parents_tail:
  "concrete_parents [sender] =
     (if concrete_polymorphic sender then [sender] else []) @ filter concrete_polymorphic (tl (visited [sender]))"
  by (simp add: concrete_parents_def visited_Cons)

lemma concrete_parents_head:
  assumes "concrete_polymorphic sender"
  shows "concrete_parents [sender] ! 0 = sender"
    and "0 < length (concrete_parents [sender])"
    and "sender \<notin> set (drop (Suc 0) (concrete_parents [sender]))"
proof -
  from assms have eq: "concrete_parents [sender] = sender # filter concrete_polymorphic (tl (visited [sender]))"
    by (simp add: concrete_parents_tail)
  show "concrete_parents [sender] ! 0 = sender" "0 < length (concrete_parents [sender])"
    by (simp_all add: eq)
  show "sender \<notin> set (drop (Suc 0) (concrete_parents [sender]))"
    using visited_tail_smaller [of sender sender] by (auto simp: eq)
qed

lemma last_concrete_parents:
  assumes "concrete_parents [sender] \<noteq> []"
  shows "(last (concrete_parents [sender]) = sender)
          = (\<forall>a. issubclass sender a \<and> concrete_polymorphic a \<longrightarrow> a = sender)"
proof -
  let ?rest = "filter concrete_polymorphic (tl (visited [sender]))"
  have rest: "a \<in> set ?rest \<Longrightarrow> a \<noteq> sender" for a
    using visited_tail_smaller [of a sender] by auto
  show ?thesis
  proof (cases "?rest = []")
    case True
    with assms have "concrete_parents [sender] = [sender]"
      by (auto simp: concrete_parents_tail split: if_splits)
    then show ?thesis
      using set_concrete_parents [of sender] by auto
  next
    case False
    then have "last (concrete_parents [sender]) = last ?rest"
      by (simp add: concrete_parents_tail)
    moreover have "last ?rest \<in> set ?rest" using False by (rule last_in_set)
    ultimately have "last (concrete_parents [sender]) \<noteq> sender"
      using rest by (auto simp del: set_filter)
    moreover have "last (concrete_parents [sender]) \<in> set (concrete_parents [sender])"
      using assms by (rule last_in_set)
    ultimately have l: "last (concrete_parents [sender]) \<noteq> sender"
      "last (concrete_parents [sender]) \<in> set (concrete_parents [sender])"
      by simp_all
    then show ?thesis
      using set_concrete_parents [of sender] by auto
  qed
qed

section \<open>Configuration errors\<close>

text \<open>
  Claim C3. Preparing a subclass of \<^verbatim>\<open>BasePolymorphicModel\<close> raises
  \<^verbatim>\<open>ImproperlyConfigured\<close> if and only if the class has no
  \<^verbatim>\<open>content_type_field_name\<close>, or the field it names does not exist, or that field is
  not a \<^verbatim>\<open>ForeignKey\<close> to \<^verbatim>\<open>ContentType\<close>; and when it does, the store is the one
  it started from: no \<^verbatim>\<open>_subclass_accessors\<close> was installed.
\<close>

theorem C3_configuration_errors:
  assumes "issubclass sender BasePolymorphicModel"
  shows "((\<exists>p. fst (prepare_polymorphic_model sender m) = Some (ImproperlyConfigured p))
          = (content_type_field_name sender = None
             \<or> (\<exists>name. content_type_field_name sender = Some name
                   \<and> get_field sender name = None)
             \<or> (\<exists>name f. content_type_field_name sender = Some name
                   \<and> get_field sender name = Some f
                   \<and> \<not> (is_ForeignKey f \<and> rel_to f = class_ref ContentType))))
       \<and> ((\<exists>p. fst (prepare_polymorphic_model sender m) = Some (ImproperlyConfigured p))
            \<longrightarrow> snd (prepare_polymorphic_model sender m) = m)"
proof -
  have checks: "(\<not> discriminator_checks sender)
          = (content_type_field_name sender = None
             \<or> (\<exists>name. content_type_field_name sender = Some name
                   \<and> get_field sender name = None)
             \<or> (\<exists>name f. content_type_field_name sender = Some name
                   \<and> get_field sender name = Some f
                   \<and> \<not> (is_ForeignKey f \<and> rel_to f = class_ref ContentType)))"
    by (auto simp: discriminator_checks_def split: option.splits)
  have raised: "(\<exists>p. fst (prepare_polymorphic_model sender m) = Some (ImproperlyConfigured p))
          = (\<not> discriminator_checks sender)"
    using prepare_checks_fail [OF assms, of m] prepare_error_kinds [OF assms, of m]
    by fastforce
  have "\<not> discriminator_checks sender \<Longrightarrow> snd (prepare_polymorphic_model sender m) = m"
    using prepare_checks_fail [OF assms, of m] by fastforce
  with raised checks show ?thesis by blast
qed

theorem C3_configuration_errors_witness:
  "issubclass NoFieldName BasePolymorphicModel
   \<and> fst (prepare_polymorphic_model NoFieldName empty_meta)
       = Some (ImproperlyConfigured MissingFieldName)
   \<and> snd (prepare_polymorphic_model NoFieldName empty_meta) = empty_meta"
proof -
  have sub: "issubclass NoFieldName BasePolymorphicModel"
    by code_simp
  have name: "content_type_field_name NoFieldName = None"
    by (simp add: NoFieldName_def)
  have err: "fst (prepare_polymorphic_model NoFieldName empty_meta)
       = Some (ImproperlyConfigured MissingFieldName)"
    using sub name by (simp add: prepare_polymorphic_model_def)
  from C3_configuration_errors [OF sub, of empty_meta] name err sub show ?thesis
    by simp
qed

section \<open>Preparing classes in sequence\<close>

lemma register_all_Cons_ok:
  "fst (prepare_polymorphic_model c m) = None \<Longrightarrow>
   register_all (c # cs) m = register_all cs (snd (prepare_polymorphic_model c m))"
  by (cases "prepare_polymorphic_model c m") (auto split: option.splits)

lemma register_all_Cons_error:
  "fst (prepare_polymorphic_model c m) \<noteq> None \<Longrightarrow>
   register_all (c # cs) m = prepare_polymorphic_model c m"
  by (cases "prepare_polymorphic_model c m") (auto split: option.splits)

lemma register_all_Cons_success:
  "fst (register_all (c # cs) m) = None \<Longrightarrow>
   fst (prepare_polymorphic_model c m) = None
   \<and> fst (register_all cs (snd (prepare_polymorphic_model c m))) = None"
  by (cases "prepare_polymorphic_model c m") (auto split: option.splits)

lemma register_all_invariant:
  assumes "P m" and step: "\<And>c m. P m \<Longrightarrow> P (snd (prepare_polymorphic_model c m))"
  shows "P (snd (register_all cs m))"
  using assms(1)
proof (induction cs arbitrary: m)
  case Nil
  then show ?case by simp
next
  case (Cons c cs)
  show ?case
  proof (cases "fst (prepare_polymorphic_model c m) = None")
    case True
    with Cons.IH [OF step [OF Cons.prems, of c]] show ?thesis
      by (simp add: register_all_Cons_ok del: register_all.simps)
  next
    case False
    with step [OF Cons.prems, of c] show ?thesis
      by (simp add: register_all_Cons_error del: register_all.simps)
  qed
qed

lemma entry_empty_meta [simp]: "entry empty_meta c k = None"
  by (simp add: entry_def empty_meta_def)

section \<open>The lookup string\<close>

text \<open>
  Claim C7. Whatever classes have been prepared, starting with no dictionary anywhere, the
  lookup string of every entry of every \<^verbatim>\<open>_subclass_accessors\<close> is the first accessor
  name of the entry when it has one and the empty string when it has none.
\<close>

theorem C7_lookup_first_accessor:
  "entry (snd (register_all cs empty_meta)) c k = Some (attrs, prx, lookup) \<Longrightarrow>
   lookup = (case attrs of [] \<Rightarrow> [] | a # as \<Rightarrow> a)"
proof -
  let ?P = "\<lambda>m. \<forall>c k a p l. entry m c k = Some (a, p, l)
                \<longrightarrow> l = (case a of [] \<Rightarrow> [] | x # xs \<Rightarrow> x)"
  have "?P (snd (register_all cs empty_meta))"
  proof (rule register_all_invariant)
    show "?P empty_meta" by simp
  next
    fix s m
    assume P: "?P m"
    show "?P (snd (prepare_polymorphic_model s m))"
    proof (intro allI impI)
      fix c k a p l
      assume "entry (snd (prepare_polymorphic_model s m)) c k = Some (a, p, l)"
      from prepare_entry_cases [OF this] P show "l = (case a of [] \<Rightarrow> [] | x # xs \<Rightarrow> x)"
        by (auto simp: join_take_Suc_0)
    qed
  qed
  moreover assume "entry (snd (register_all cs empty_meta)) c k = Some (attrs, prx, lookup)"
  ultimately show ?thesis by blast
qed

theorem C7_lookup_first_accessor_witness:
  "entry (snd (register_all [Root, Middle, Leaf] empty_meta)) Root Leaf
     = Some ([''middle'', ''leaf''], None, ''middle'')
   \<and> ''middle'' = (case [''middle'', ''leaf''] of [] \<Rightarrow> [] | a # as \<Rightarrow> a)"
proof -
  have e: "entry (snd (register_all [Root, Middle, Leaf] empty_meta)) Root Leaf
     = Some ([''middle'', ''leaf''], None, ''middle'')"
    by code_simp
  from e C7_lookup_first_accessor [OF e] show ?thesis by (rule conjI)
qed

lemma prepare_entry:
  assumes "issubclass sender BasePolymorphicModel"
    and "fst (prepare_polymorphic_model sender m) = None"
    and "i < length (concrete_parents [sender])"
    and "concrete_parents [sender] ! i \<notin> set (drop (Suc i) (concrete_parents [sender]))"
  shows "entry (snd (prepare_polymorphic_model sender m)) (concrete_parents [sender] ! i) sender
           = Some (accessor_names (take i (concrete_parents [sender])),
                   proxy_marker sender,
                   join LOOKUP_SEP (take 1 (accessor_names (take i (concrete_parents [sender])))))"
proof -
  note ok = prepare_success [OF assms(1,2)]
  from write_entries_entry [OF ok(2) assms(3,4)] show ?thesis
    unfolding ok(4) by simp
qed

section \<open>Accessor chains\<close>

text \<open>
  Claim C2. When a class has been prepared, the entry for it in the dictionary of a
  concrete polymorphic class the loop popped (at its last visit, should it be popped more
  than once) holds the names accumulated before that visit: the lowercase names of the
  concrete polymorphic classes popped earlier that are not proxies, the latest first. Its
  proxy marker is the new class when that is a proxy. For Root, Middle and Leaf this gives
  \<open>middle, leaf\<close> on Root and \<open>leaf\<close> on Middle, as the witness computes.
\<close>

theorem C2_accessor_chains:
  assumes "issubclass sender BasePolymorphicModel"
    and "fst (prepare_polymorphic_model sender m) = None"
    and "i < length (concrete_parents [sender])"
    and "concrete_parents [sender] ! i \<notin> set (drop (Suc i) (concrete_parents [sender]))"
  shows "entry (snd (prepare_polymorphic_model sender m)) (concrete_parents [sender] ! i) sender
           = Some (accessor_names (take i (concrete_parents [sender])),
                   proxy_marker sender,
                   join LOOKUP_SEP (take 1 (accessor_names (take i (concrete_parents [sender])))))"
  using assms by (rule prepare_entry)

theorem C2_accessor_chains_witness:
  "entry (snd (register_all [Root, Middle, Leaf] empty_meta)) Root Leaf
     = Some ([''middle'', ''leaf''], None, ''middle'')
   \<and> entry (snd (register_all [Root, Middle, Leaf] empty_meta)) Middle Leaf
     = Some ([''leaf''], None, ''leaf'')"
proof -
  let ?m = "snd (prepare_polymorphic_model Middle (snd (prepare_polymorphic_model Root empty_meta)))"
  have r: "fst (prepare_polymorphic_model Root empty_meta) = None"
    by code_simp
  have mi: "fst (prepare_polymorphic_model Middle (snd (prepare_polymorphic_model Root empty_meta))) = None"
    by code_simp
  have ok: "fst (prepare_polymorphic_model Leaf ?m) = None"
    by code_simp
  have all: "snd (register_all [Root, Middle, Leaf] empty_meta) = snd (prepare_polymorphic_model Leaf ?m)"
    using r mi ok by (simp add: register_all_Cons_ok del: register_all.simps(2))
  have sub: "issubclass Leaf BasePolymorphicModel"
    by code_simp
  have cps: "concrete_parents [Leaf] = [Leaf, Middle, Root]"
    by code_simp
  have names: "accessor_names [Leaf, Middle] = [''middle'', ''leaf'']" "accessor_names [Leaf] = [''leaf'']"
    by code_simp+
  have prx: "proxy_marker Leaf = None"
    by code_simp
  have d: "Root \<noteq> Leaf" "Root \<noteq> Middle" "Middle \<noteq> Leaf" "Middle \<noteq> Root"
    by code_simp+
  from C2_accessor_chains [OF sub ok, of 2] C2_accessor_chains [OF sub ok, of 1]
  show ?thesis
    unfolding all cps by (simp add: names prx d)
qed

section \<open>Type casts\<close>

lemma resolve_to_Some [simp]: "resolve_to reg inst (Some t) = Inr (Some t)"
  by (simp add: resolve_to_def)

lemma isinstance_self:
  "deref h self = Some inst \<Longrightarrow> isinstance h self (inst_class inst)"
  by (simp add: isinstance_def)

lemma type_cast_known:
  assumes "deref h self = Some inst"
    and "resolve_to reg inst to = Inr (Some t)"
    and "subclass_accessors m (inst_class inst) = Some tbl"
    and "get_accessor tbl (Some t) = (attrs, prx, lookup)"
  shows "type_cast m reg h self to =
     (case walk h self attrs of
        Inl e \<Rightarrow> (Inl e, h)
      | Inr w \<Rightarrow>
          (case (case prx of None \<Rightarrow> (Inr w, h) | Some p \<Rightarrow> copy_fields h w p) of
             (Inl e, h') \<Rightarrow> (Inl e, h')
           | (Inr obj, h') \<Rightarrow>
               (if isinstance h' obj t then (Inr obj, h') else (Inl (TypeError self t), h'))))"
  using assms by (auto simp: type_cast_def split: sum.splits option.splits prod.splits)

lemma type_cast_miss:
  assumes "deref h self = Some inst"
    and "resolve_to reg inst to = Inr (Some t)"
    and "subclass_accessors m (inst_class inst) = Some tbl"
    and "tbl t = None"
  shows "type_cast m reg h self to =
           (if isinstance h self t then Inr self else Inl (TypeError self t), h)"
proof -
  have "get_accessor tbl (Some t) = ([], None, [])"
    using assms(4) by (simp add: get_accessor_def EMPTY_ACCESSOR_def)
  from type_cast_known [OF assms(1-3) this] show ?thesis by simp
qed

text \<open>
  Claim C6. When the dictionary of the class of the instance has no entry for the target,
  the lookup yields \<^verbatim>\<open>EMPTY_ACCESSOR\<close> and raises nothing: no accessor is read and
  nothing is copied, and the outcome is decided by the \<^verbatim>\<open>isinstance\<close> test on the
  instance itself, which is returned when it passes and named in the \<^verbatim>\<open>TypeError\<close>
  when it fails.
\<close>

theorem C6_lookup_miss_falls_back:
  assumes "deref h self = Some inst"
    and "resolve_to reg inst to = Inr (Some t)"
    and "subclass_accessors m (inst_class inst) = Some tbl"
    and "tbl t = None"
  shows "get_accessor tbl (Some t) = EMPTY_ACCESSOR
       \<and> type_cast m reg h self to =
           (if isinstance h self t then Inr self else Inl (TypeError self t), h)"
  using type_cast_miss [OF assms] assms(4) by (simp add: get_accessor_def)

lemma example_meta_table:
  "subclass_accessors example_meta c \<noteq> None \<Longrightarrow>
   \<exists>tbl. subclass_accessors example_meta c = Some tbl \<and> (\<forall>k. tbl k = entry example_meta c k)"
  by (auto simp: entry_def)

theorem C6_lookup_miss_falls_back_witness:
  "type_cast example_meta example_registry example_heap 2 (Some ContentType)
       = (Inl (TypeError 2 ContentType), example_heap)
   \<and> type_cast example_meta example_registry example_heap 2 (Some Root)
       = (Inr 2, example_heap)"
proof -
  have "subclass_accessors example_meta Leaf \<noteq> None" by code_simp
  from example_meta_table [OF this] obtain tbl
    where tbl: "subclass_accessors example_meta Leaf = Some tbl"
      and ent: "\<And>k. tbl k = entry example_meta Leaf k" by blast
  have miss: "tbl ContentType = None" "tbl Root = None"
    unfolding ent by code_simp+
  have d: "deref example_heap 2 = Some (example_heap ! 2)"
    by (simp add: deref_def example_heap_def)
  have c: "inst_class (example_heap ! 2) = Leaf"
    by (simp add: example_heap_def)
  have i: "\<not> isinstance example_heap 2 ContentType" "isinstance example_heap 2 Root"
    by code_simp+
  from C6_lookup_miss_falls_back [OF d resolve_to_Some tbl [folded c] miss(1)]
    C6_lookup_miss_falls_back [OF d resolve_to_Some tbl [folded c] miss(2)] i
  show ?thesis by simp
qed

lemma entry_keys_are_subclasses:
  "entry (snd (register_all cs empty_meta)) c k = Some e \<Longrightarrow> issubclass k c"
proof -
  let ?P = "\<lambda>m. \<forall>c k e. entry m c k = Some e \<longrightarrow> issubclass k c"
  have "?P (snd (register_all cs empty_meta))"
  proof (rule register_all_invariant)
    show "?P empty_meta" by simp
  next
    fix s m
    assume P: "?P m"
    show "?P (snd (prepare_polymorphic_model s m))"
    proof (intro allI impI)
      fix c k e
      assume "entry (snd (prepare_polymorphic_model s m)) c k = Some e"
      from prepare_entry_cases [OF this]
      consider "entry m c k = Some e" | "c \<in> set (concrete_parents [s])" "k = s"
        by blast
      then show "issubclass k c"
      proof cases
        case 1
        with P show ?thesis by blast
      next
        case 2
        then show ?thesis by (simp add: set_concrete_parents)
      qed
    qed
  qed
  moreover assume "entry (snd (register_all cs empty_meta)) c k = Some e"
  ultimately show ?thesis by blast
qed

text \<open>
  Claim C10. Once classes have been prepared, starting with no dictionary anywhere, let
  the target be a class the instance is an instance of. If the dictionary of the class of
  the instance has no entry for the target, \<^verbatim>\<open>type_cast\<close> returns the instance itself
  and the heap is untouched: nothing was read and nothing copied. That is the case
  whenever the target is not the class of the instance itself, since the keys of a
  dictionary are subclasses of its owner.
\<close>

theorem C10_upcast_is_identity:
  assumes "deref h self = Some inst"
    and "resolve_to reg inst to = Inr (Some t)"
    and "subclass_accessors (snd (register_all cs empty_meta)) (inst_class inst) = Some tbl"
    and "issubclass (inst_class inst) t"
  shows "(tbl t = None \<longrightarrow>
            type_cast (snd (register_all cs empty_meta)) reg h self to = (Inr self, h))
       \<and> (t \<noteq> inst_class inst \<longrightarrow> tbl t = None)"
proof -
  have inst: "isinstance h self t"
    using assms(1,4) by (simp add: isinstance_def)
  have "tbl t = None" if neq: "t \<noteq> inst_class inst"
  proof (rule ccontr)
    assume "tbl t \<noteq> None"
    then obtain e where "entry (snd (register_all cs empty_meta)) (inst_class inst) t = Some e"
      using assms(3) by (auto simp: entry_def)
    then have "issubclass t (inst_class inst)"
      by (rule entry_keys_are_subclasses)
    with assms(4) neq show False
      using issubclass_antisym by blast
  qed
  moreover have "type_cast (snd (register_all cs empty_meta)) reg h self to = (Inr self, h)"
    if "tbl t = None"
    using type_cast_miss [OF assms(1,2,3) that] inst by simp
  ultimately show ?thesis by blast
qed

theorem C10_upcast_is_identity_witness:
  "issubclass Leaf Root \<and> Root \<noteq> Leaf
   \<and> entry example_meta Leaf Root = None
   \<and> type_cast example_meta example_registry example_heap 2 (Some Root) = (Inr 2, example_heap)"
proof -
  have "subclass_accessors example_meta Leaf \<noteq> None" by code_simp
  from example_meta_table [OF this] obtain tbl
    where tbl: "subclass_accessors example_meta Leaf = Some tbl"
      and ent: "\<And>k. tbl k = entry example_meta Leaf k" by blast
  have d: "deref example_heap 2 = Some (example_heap ! 2)"
    by (simp add: deref_def example_heap_def)
  have c: "inst_class (example_heap ! 2) = Leaf"
    by (simp add: example_heap_def)
  have sub: "issubclass Leaf Root" and neq: "Root \<noteq> Leaf"
    by code_simp+
  from C10_upcast_is_identity [OF d resolve_to_Some tbl [folded c, unfolded example_meta_def]
      sub [folded c], of example_registry] neq sub
  show ?thesis
    by (simp add: c ent example_meta_def)
qed

section \<open>Casting to the own class\<close>

lemma prepare_own_entry:
  assumes "concrete_polymorphic sender"
    and "fst (prepare_polymorphic_model sender m) = None"
  shows "entry (snd (prepare_polymorphic_model sender m)) sender sender
           = Some ([], proxy_marker sender, [])"
proof -
  have poly: "issubclass sender BasePolymorphicModel"
    using assms(1) by (simp add: concrete_polymorphic_def)
  note hd = concrete_parents_head [OF assms(1)]
  from prepare_entry [OF poly assms(2) hd(2)] hd(1,3) show ?thesis
    by (simp add: accessor_names_def)
qed

lemma register_all_other_entry:
  "c \<notin> set cs \<Longrightarrow> k \<notin> set cs \<Longrightarrow> entry (snd (register_all cs m)) c k = entry m c k"
proof (induction cs arbitrary: m)
  case Nil
  then show ?case by simp
next
  case (Cons s cs)
  then have neq: "c \<noteq> s" "k \<noteq> s" and notin: "c \<notin> set cs" "k \<notin> set cs" by auto
  show ?case
  proof (cases "fst (prepare_polymorphic_model s m) = None")
    case True
    then show ?thesis
      using Cons.IH [OF notin] prepare_other_entry [OF neq]
      by (simp add: register_all_Cons_ok del: register_all.simps)
  next
    case False
    then show ?thesis
      using prepare_other_entry [OF neq]
      by (simp add: register_all_Cons_error del: register_all.simps)
  qed
qed

lemma register_all_own_entry:
  "fst (register_all cs m) = None \<Longrightarrow> c \<in> set cs \<Longrightarrow> concrete_polymorphic c \<Longrightarrow>
   entry (snd (register_all cs m)) c c = Some ([], proxy_marker c, [])"
proof (induction cs arbitrary: m)
  case Nil
  then show ?case by simp
next
  case (Cons s cs)
  note ok = register_all_Cons_success [OF Cons.prems(1)]
  have step: "register_all (s # cs) m = register_all cs (snd (prepare_polymorphic_model s m))"
    using ok by (simp add: register_all_Cons_ok del: register_all.simps)
  show ?case
  proof (cases "c \<in> set cs")
    case True
    from Cons.IH [OF _ True Cons.prems(3)] ok show ?thesis
      unfolding step by simp
  next
    case False
    with Cons.prems(2) have "c = s" by simp
    with False ok Cons.prems(3) show ?thesis
      unfolding step by (simp add: register_all_other_entry prepare_own_entry)
  qed
qed

text \<open>
  Claim C5. Let the class of an instance be concrete and prepared, all preparations having
  succeeded. Its own entry in its dictionary has no accessor name and an empty lookup
  string. Casting the instance to its own class does not raise and reads no accessor: it
  returns the instance itself, the heap untouched, unless the class is a proxy, when it
  returns a new object of that class with the values of the instance.
\<close>

theorem C5_cast_to_own_class:
  assumes "fst (register_all cs m0) = None"
    and "deref h self = Some inst"
    and "inst_class inst \<in> set cs"
    and "concrete_polymorphic (inst_class inst)"
    and "resolve_to reg inst to = Inr (Some (inst_class inst))"
  shows "entry (snd (register_all cs m0)) (inst_class inst) (inst_class inst)
           = Some ([], proxy_marker (inst_class inst), [])
       \<and> (\<not> proxy (inst_class inst) \<longrightarrow>
            type_cast (snd (register_all cs m0)) reg h self to = (Inr self, h))
       \<and> (proxy (inst_class inst) \<longrightarrow>
            type_cast (snd (register_all cs m0)) reg h self to = (Inr (length h), h @ [inst]))"
proof -
  let ?m = "snd (register_all cs m0)" and ?c = "inst_class inst"
  have own: "entry ?m ?c ?c = Some ([], proxy_marker ?c, [])"
    using assms(1,3,4) by (rule register_all_own_entry)
  then obtain tbl where tbl: "subclass_accessors ?m ?c = Some tbl"
    and hit: "tbl ?c = Some ([], proxy_marker ?c, [])"
    by (auto simp: entry_def split: option.splits)
  have acc: "get_accessor tbl (Some ?c) = ([], proxy_marker ?c, [])"
    using hit by (simp add: get_accessor_def)
  note cast = type_cast_known [OF assms(2,5) tbl acc]
  have plain: "type_cast ?m reg h self to = (Inr self, h)" if "\<not> proxy ?c"
    using cast that isinstance_self [OF assms(2)] by (simp add: proxy_marker_def)
  have copy: "type_cast ?m reg h self to = (Inr (length h), h @ [inst])" if "proxy ?c"
    using cast that assms(2)
    by (simp add: proxy_marker_def copy_fields_def isinstance_def deref_def)
  from own plain copy show ?thesis by blast
qed

theorem C5_cast_to_own_class_witness:
  "type_cast example_meta example_registry example_heap 2 (Some Leaf) = (Inr 2, example_heap)
   \<and> type_cast example_meta example_registry example_heap 6 (Some RootProxy)
       = (Inr 7, example_heap @ [example_heap ! 6])"
proof -
  have ok: "fst (register_all [Root, Middle, Leaf, RootProxy] empty_meta) = None"
    by code_simp
  have d: "deref example_heap 2 = Some (example_heap ! 2)" "deref example_heap 6 = Some (example_heap ! 6)"
    by (simp_all add: deref_def example_heap_def)
  have c: "inst_class (example_heap ! 2) = Leaf" "inst_class (example_heap ! 6) = RootProxy"
    by (simp_all add: example_heap_def)
  have cp: "concrete_polymorphic Leaf" "concrete_polymorphic RootProxy"
    by code_simp+
  have p: "\<not> proxy Leaf" "proxy RootProxy"
    by code_simp+
  have len: "length example_heap = 7"
    by (simp add: example_heap_def)
  from C5_cast_to_own_class [OF ok d(1), of example_registry "Some Leaf"]
    C5_cast_to_own_class [OF ok d(2), of example_registry "Some RootProxy"]
  show ?thesis
    by (simp add: c cp p len example_meta_def)
qed

section \<open>The final check of a cast\<close>

lemma example_meta_tables:
  "subclass_accessors example_meta Root \<noteq> None"
  "subclass_accessors example_meta Leaf \<noteq> None"
  by code_simp+

text \<open>
  Claim C1, as stated, fails: a cast has a third outcome. The Root row 3 of the example
  heap has no Middle row, and casting it to Leaf raises what \<^verbatim>\<open>getattr\<close> raises on
  the accessor \<open>middle\<close>, which is not the \<^verbatim>\<open>TypeError\<close> of the final check.
\<close>

theorem C1_cast_outcomes_counterexample:
  "fst (type_cast example_meta example_registry example_heap 3 (Some Leaf))
     = Inl (GetattrError ''middle'')
   \<and> fst (type_cast example_meta example_registry example_heap 3 (Some Leaf))
     \<noteq> Inl (TypeError 3 Leaf)"
proof -
  from example_meta_table [OF example_meta_tables(1)] obtain tbl
    where tbl: "subclass_accessors example_meta Root = Some tbl"
      and ent: "\<And>k. tbl k = entry example_meta Root k" by blast
  have hit: "tbl Leaf = Some ([''middle'', ''leaf''], None, ''middle'')"
    unfolding ent by code_simp
  have d: "deref example_heap 3 = Some (example_heap ! 3)"
    by (simp add: deref_def example_heap_def)
  have c: "inst_class (example_heap ! 3) = Root"
    by (simp add: example_heap_def)
  have acc: "get_accessor tbl (Some Leaf) = ([''middle'', ''leaf''], None, ''middle'')"
    using hit by (simp add: get_accessor_def)
  have w: "walk example_heap 3 [''middle'', ''leaf''] = Inl (GetattrError ''middle'')"
    by (simp add: getattr_related_def deref_def example_heap_def)
  from type_cast_known [OF d resolve_to_Some tbl [folded c] acc, of example_registry] w
  show ?thesis by simp
qed

text \<open>
  Claim C1, amended. Let the target be resolved and the dictionary of the class of the
  instance yield an accessor. If reading an accessor of the chain raises, \<^verbatim>\<open>type_cast\<close>
  raises the same. If the chain leads to an object (and, for a proxy entry, the copy is
  made), \<^verbatim>\<open>type_cast\<close> returns that object when it is an instance of the target and
  raises the \<^verbatim>\<open>TypeError\<close> naming the instance and the target when it is not. In every
  case an object that is returned is an instance of the target.
\<close>

theorem C1_cast_outcomes:
  assumes "deref h self = Some inst"
    and "resolve_to reg inst to = Inr (Some t)"
    and "subclass_accessors m (inst_class inst) = Some tbl"
    and "get_accessor tbl (Some t) = (attrs, prx, lookup)"
  shows "(\<forall>e. walk h self attrs = Inl e \<longrightarrow> type_cast m reg h self to = (Inl e, h))
       \<and> (\<forall>w obj h'. walk h self attrs = Inr w
             \<longrightarrow> (case prx of None \<Rightarrow> (Inr w, h) | Some p \<Rightarrow> copy_fields h w p) = (Inr obj, h')
             \<longrightarrow> type_cast m reg h self to
                   = (if isinstance h' obj t then Inr obj else Inl (TypeError self t), h'))
       \<and> (\<forall>r. fst (type_cast m reg h self to) = Inr r
             \<longrightarrow> isinstance (snd (type_cast m reg h self to)) r t)"
proof -
  note cast = type_cast_known [OF assms]
  have "type_cast m reg h self to = (Inl e, h)" if "walk h self attrs = Inl e" for e
    using cast that by simp
  moreover have "type_cast m reg h self to
      = (if isinstance h' obj t then Inr obj else Inl (TypeError self t), h')"
    if "walk h self attrs = Inr w"
      "(case prx of None \<Rightarrow> (Inr w, h) | Some p \<Rightarrow> copy_fields h w p) = (Inr obj, h')"
    for w obj h'
    using cast that by simp
  moreover have "isinstance (snd (type_cast m reg h self to)) r t"
    if "fst (type_cast m reg h self to) = Inr r" for r
    using that unfolding cast
    by (auto split: sum.splits prod.splits if_splits)
  ultimately show ?thesis by blast
qed

theorem C1_cast_outcomes_witness:
  "type_cast example_meta example_registry example_heap 0 (Some Leaf) = (Inr 2, example_heap)
   \<and> isinstance example_heap 2 Leaf
   \<and> type_cast example_meta example_registry example_heap 0 None = (Inr 2, example_heap)"
proof -
  from example_meta_table [OF example_meta_tables(1)] obtain tbl
    where tbl: "subclass_accessors example_meta Root = Some tbl"
      and ent: "\<And>k. tbl k = entry example_meta Root k" by blast
  have hit: "tbl Leaf = Some ([''middle'', ''leaf''], None, ''middle'')"
    unfolding ent by code_simp
  have d: "deref example_heap 0 = Some (example_heap ! 0)"
    by (simp add: deref_def example_heap_def)
  have c: "inst_class (example_heap ! 0) = Root"
    by (simp add: example_heap_def)
  have acc: "get_accessor tbl (Some Leaf) = ([''middle'', ''leaf''], None, ''middle'')"
    using hit by (simp add: get_accessor_def)
  have w: "walk example_heap 0 [''middle'', ''leaf''] = Inr 2"
    by (simp add: getattr_related_def deref_def example_heap_def)
  have i: "isinstance example_heap 2 Leaf"
    by code_simp
  have r: "resolve_to example_registry (example_heap ! 0) None = Inr (Some Leaf)"
    by (simp add: resolve_to_def c Root_def example_heap_def example_registry_def)
  from C1_cast_outcomes [OF d resolve_to_Some tbl [folded c] acc, of example_registry]
    C1_cast_outcomes [OF d r tbl [folded c] acc] w i
  show ?thesis by simp
qed

section \<open>Saving\<close>

text \<open>
  Claim C4. \<^verbatim>\<open>save\<close> hands the instance to the save of the superclass. When \<^verbatim>\<open>pk\<close> is
  \<^verbatim>\<open>None\<close> it first sets the discriminator field to the content type of the class of
  the instance; when \<^verbatim>\<open>pk\<close> is set it changes nothing, whatever the discriminator holds.
\<close>

theorem C4_save_sets_discriminator_once:
  assumes "deref h self = Some inst"
    and "content_type_field_name (inst_class inst) = Some name"
  shows "(pk inst = None \<longrightarrow>
            save reg super_save h self
              = super_save self
                  (h[self := inst\<lparr>field_values := (field_values inst)
                       (name \<mapsto> ContentTypeVal
                          (get_content_type reg (inst_class inst) (state_db inst)))\<rparr>]))
       \<and> (pk inst \<noteq> None \<longrightarrow> save reg super_save h self = super_save self h)"
  using assms by (simp add: save_def)

theorem C4_save_sets_discriminator_once_witness:
  "discriminator (snd (save example_registry plain_save example_heap 4)) 4
     = Some (ContentTypeVal 3)
   \<and> get_content_type example_registry Leaf None = 3
   \<and> discriminator example_heap 5 = Some (ContentTypeVal 1)
   \<and> discriminator (snd (save example_registry plain_save example_heap 5)) 5
     = Some (ContentTypeVal 1)
   \<and> snd (save example_registry plain_save example_heap 5) = example_heap"
proof -
  have d: "deref example_heap 4 = Some (example_heap ! 4)" "deref example_heap 5 = Some (example_heap ! 5)"
    by (simp_all add: deref_def example_heap_def)
  have c: "inst_class (example_heap ! 4) = Leaf" "inst_class (example_heap ! 5) = Leaf"
    by (simp_all add: example_heap_def)
  have n: "content_type_field_name Leaf = Some ''content_type''"
    by (simp add: Leaf_def)
  have p: "pk (example_heap ! 4) = None" "pk (example_heap ! 5) \<noteq> None"
    by (simp_all add: example_heap_def)
  have g: "get_content_type example_registry Leaf None = 3"
    by code_simp
  have s: "state_db (example_heap ! 4) = None"
    by (simp add: example_heap_def)
  have len: "4 < length example_heap"
    by (simp add: example_heap_def)
  have old: "discriminator example_heap 5 = Some (ContentTypeVal 1)"
    by (simp add: discriminator_def d c n) (simp add: example_heap_def)
  from C4_save_sets_discriminator_once [OF d(1) n [folded c(1)], of example_registry plain_save]
    C4_save_sets_discriminator_once [OF d(2) n [folded c(2)], of example_registry plain_save]
    p g old len
  show ?thesis
    by (simp add: plain_save_def discriminator_def deref_def c n s)
qed

section \<open>The order of the traversal\<close>

text \<open>
  Claim C8, as stated, fails: the loop keeps no record of the classes it has popped. With
  two polymorphic mixins as bases, \<^verbatim>\<open>PolymorphicModel\<close> and \<^verbatim>\<open>BasePolymorphicModel\<close>
  are popped twice, and before the second mixin, which precedes them in the method
  resolution order.
\<close>

theorem C8_traversal_order_counterexample:
  "visited [Diamond] =
     [Diamond, MixinA, PolymorphicModel, BasePolymorphicModel, Model,
      MixinB, PolymorphicModel, BasePolymorphicModel, Model]"
  by code_simp

lemma visited_single:
  "visited [c] = c # (if issubclass c BasePolymorphicModel then visited (bases c) else [])"
  by (simp add: visited_Cons)

lemma visited_smaller:
  assumes "p \<in> set (visited (bases c))"
  shows "size p < size c"
proof -
  from visited_superclass [OF assms] obtain q where q: "q \<in> set (bases c)" "issubclass q p"
    by blast
  have "size p \<le> size q"
    using issubclass_size [OF q(2)] by (cases "q = p") auto
  with size_bases [OF q(1)] show ?thesis by simp
qed

text \<open>
  Claim C8, amended. With single inheritance the loop pops the classes of the method
  resolution order of the new class, from that class on, each once: all those that are
  subclasses of \<^verbatim>\<open>BasePolymorphicModel\<close> and then the first that is not, whose bases it
  does not explore.
\<close>

theorem C8_traversal_order:
  "single_inheritance sender \<Longrightarrow>
   visited [sender] =
     takeWhile (\<lambda>c. issubclass c BasePolymorphicModel) (base_chain sender)
     @ take 1 (dropWhile (\<lambda>c. issubclass c BasePolymorphicModel) (base_chain sender))
   \<and> distinct (visited [sender])"
proof (induction sender rule: base_chain.induct)
  case (1 c)
  show ?case
  proof (cases "bases c")
    case Nil
    then show ?thesis
      by (simp add: visited_single base_chain.simps [of c])
  next
    case (Cons b bs)
    with "1.prems" have bs: "bs = []" and single: "single_inheritance b"
      by (auto simp: single_inheritance.simps [of c] split: list.splits)
    from Cons bs have b: "bases c = [b]" by simp
    note IH = "1.IH" [OF Cons bs single]
    from IH have eq: "visited [b] =
        takeWhile (\<lambda>c. issubclass c BasePolymorphicModel) (base_chain b)
        @ take 1 (dropWhile (\<lambda>c. issubclass c BasePolymorphicModel) (base_chain b))"
      and dist: "distinct (visited [b])"
      by blast+
    have notin: "c \<notin> set (visited [b])"
      using visited_smaller [of c c] b by auto
    have "visited [c] =
        takeWhile (\<lambda>c. issubclass c BasePolymorphicModel) (base_chain c)
        @ take 1 (dropWhile (\<lambda>c. issubclass c BasePolymorphicModel) (base_chain c))"
      using b by (simp add: visited_single [of c] base_chain.simps [of c] eq)
    moreover have "distinct (visited [c])"
      using b dist notin by (simp add: visited_single [of c])
    ultimately show ?thesis by simp
  qed
qed

theorem C8_traversal_order_witness:
  "single_inheritance Leaf
   \<and> base_chain Leaf
       = [Leaf, Middle, Root, PolymorphicModel, BasePolymorphicModel, Model, pyobject]
   \<and> visited [Leaf] = [Leaf, Middle, Root, PolymorphicModel, BasePolymorphicModel, Model]"
proof -
  have s: "single_inheritance Leaf"
    by code_simp
  have ch: "base_chain Leaf
       = [Leaf, Middle, Root, PolymorphicModel, BasePolymorphicModel, Model, pyobject]"
    by code_simp
  have poly: "issubclass Leaf BasePolymorphicModel" "issubclass Middle BasePolymorphicModel"
    "issubclass Root BasePolymorphicModel" "issubclass PolymorphicModel BasePolymorphicModel"
    "issubclass BasePolymorphicModel BasePolymorphicModel"
    "\<not> issubclass Model BasePolymorphicModel"
    by code_simp+
  from C8_traversal_order [OF s] s ch show ?thesis
    by (simp add: poly)
qed

section \<open>The polymorphic root\<close>

lemma is_polymorphic_root_fresh_table [simp]:
  "is_polymorphic_root (fresh_table s m) = is_polymorphic_root m"
  by (simp add: fresh_table_def)

lemma prepare_root_flags:
  assumes "fst (prepare_polymorphic_model s m) = None"
  shows "is_polymorphic_root (snd (prepare_polymorphic_model s m)) =
           (if issubclass s BasePolymorphicModel
            then (is_polymorphic_root m)(s \<mapsto> (last (concrete_parents [s]) = s))
            else is_polymorphic_root m)"
proof (cases "issubclass s BasePolymorphicModel")
  case False
  then show ?thesis by (simp add: prepare_not_polymorphic)
next
  case True
  note ok = prepare_success [OF True assms]
  show ?thesis
    unfolding ok(4) using True by (simp add: write_entries_root_field)
qed

lemma prepare_tables:
  assumes "fst (prepare_polymorphic_model s m) = None"
  shows "(subclass_accessors (snd (prepare_polymorphic_model s m)) c = None)
           = (subclass_accessors m c = None \<and> \<not> (c = s \<and> issubclass s BasePolymorphicModel))"
proof (cases "issubclass s BasePolymorphicModel")
  case False
  then show ?thesis by (simp add: prepare_not_polymorphic)
next
  case True
  note ok = prepare_success [OF True assms]
  show ?thesis
    unfolding ok(4) using True by (simp add: write_entries_dom) (simp add: fresh_table_def)
qed

lemma prepare_needs_tables:
  assumes "fst (prepare_polymorphic_model s m) = None"
    and "issubclass s BasePolymorphicModel"
    and "p \<in> set (concrete_parents [s])"
  shows "p = s \<or> subclass_accessors m p \<noteq> None"
proof -
  note ok = prepare_success [OF assms(2,1)]
  from ok(2) assms(3) have "subclass_accessors (fresh_table s m) p \<noteq> None"
    by (simp add: write_entries_success)
  then show ?thesis by (auto simp: fresh_table_def split: if_splits)
qed

lemma register_all_flags:
  "fst (register_all cs m) = None \<Longrightarrow>
   is_polymorphic_root (snd (register_all cs m)) c =
     (if c \<in> set cs \<and> issubclass c BasePolymorphicModel
      then Some (last (concrete_parents [c]) = c) else is_polymorphic_root m c)"
proof (induction cs arbitrary: m)
  case Nil
  then show ?case by simp
next
  case (Cons s cs)
  note ok = register_all_Cons_success [OF Cons.prems]
  have step: "register_all (s # cs) m = register_all cs (snd (prepare_polymorphic_model s m))"
    using ok by (simp add: register_all_Cons_ok del: register_all.simps)
  from Cons.IH ok show ?case
    unfolding step by (simp add: prepare_root_flags)
qed

lemma register_all_parents_registered:
  "fst (register_all cs m) = None \<Longrightarrow> c \<in> set cs \<Longrightarrow> issubclass c BasePolymorphicModel \<Longrightarrow>
   p \<in> set (concrete_parents [c]) \<Longrightarrow> subclass_accessors m p \<noteq> None \<or> p \<in> set cs"
proof (induction cs arbitrary: m)
  case Nil
  then show ?case by simp
next
  case (Cons s cs)
  note ok = register_all_Cons_success [OF Cons.prems(1)]
  show ?case
  proof (cases "c \<in> set cs")
    case True
    from Cons.IH [OF _ True Cons.prems(3,4)] ok
    have "subclass_accessors (snd (prepare_polymorphic_model s m)) p \<noteq> None \<or> p \<in> set cs"
      by simp
    then show ?thesis
      using prepare_tables [of s m p] ok by auto
  next
    case False
    with Cons.prems(2) have "c = s" by simp
    with prepare_needs_tables [of s m p] ok Cons.prems(3,4) show ?thesis by auto
  qed
qed

lemma register_all_has_concrete_parent:
  "fst (register_all cs m) = None \<Longrightarrow> c \<in> set cs \<Longrightarrow> issubclass c BasePolymorphicModel \<Longrightarrow>
   concrete_parents [c] \<noteq> []"
proof (induction cs arbitrary: m)
  case Nil
  then show ?case by simp
next
  case (Cons s cs)
  note ok = register_all_Cons_success [OF Cons.prems(1)]
  show ?case
  proof (cases "c \<in> set cs")
    case True
    from Cons.IH [OF _ True Cons.prems(3)] ok show ?thesis by blast
  next
    case False
    with Cons.prems(2) have "c = s" by simp
    with prepare_success(3) [of s m] ok Cons.prems(3) show ?thesis by simp
  qed
qed

lemma single_inheritance_comparable:
  "single_inheritance l \<Longrightarrow> issubclass l a \<Longrightarrow> issubclass l b \<Longrightarrow>
   issubclass a b \<or> issubclass b a"
proof (induction l rule: single_inheritance.induct)
  case (1 c)
  show ?case
  proof (cases "a = c \<or> b = c")
    case True
    with "1.prems" show ?thesis by auto
  next
    case False
    with "1.prems"(2,3) obtain x y where x: "x \<in> set (bases c)" "issubclass x a"
      and y: "y \<in> set (bases c)" "issubclass y b"
      by (subst (asm) (1 2) issubclass.simps) auto
    from x(1) obtain u us where u: "bases c = u # us" by (cases "bases c") auto
    with "1.prems"(1) have us: "us = []" and single: "single_inheritance u"
      by (auto simp: single_inheritance.simps [of c] split: list.splits)
    from u us x y have "x = u" "y = u" by simp_all
    with "1.IH" [OF u us single] x y show ?thesis by simp
  qed
qed

lemma prepare_root_flag:
  assumes "issubclass sender BasePolymorphicModel"
    and "fst (prepare_polymorphic_model sender m) = None"
  shows "is_polymorphic_root (snd (prepare_polymorphic_model sender m)) sender
           = Some (\<forall>a. issubclass sender a \<and> concrete_polymorphic a \<longrightarrow> a = sender)"
proof -
  note ok = prepare_success [OF assms]
  from prepare_root_flags [OF assms(2)] assms(1) last_concrete_parents [OF ok(3)]
  show ?thesis by simp
qed

lemma registered_root_flag:
  assumes "fst (register_all cs empty_meta) = None"
  shows "(is_polymorphic_root (snd (register_all cs empty_meta)) c = Some True)
           = (c \<in> set cs \<and> issubclass c BasePolymorphicModel
              \<and> (\<forall>a. issubclass c a \<and> concrete_polymorphic a \<longrightarrow> a = c))"
proof (cases "c \<in> set cs \<and> issubclass c BasePolymorphicModel")
  case False
  then show ?thesis
    using register_all_flags [OF assms, of c] by (auto simp: empty_meta_def)
next
  case True
  then have ne: "concrete_parents [c] \<noteq> []"
    using register_all_has_concrete_parent [OF assms] by blast
  from register_all_flags [OF assms, of c] True last_concrete_parents [OF ne]
  show ?thesis by simp
qed

lemma registered_root_exists:
  assumes ok: "fst (register_all cs empty_meta) = None"
    and c: "c \<in> set cs" "issubclass c BasePolymorphicModel"
  shows "\<exists>r. is_polymorphic_root (snd (register_all cs empty_meta)) r = Some True"
proof -
  let ?S = "\<lambda>x. x \<in> set cs \<and> concrete_polymorphic x"
  have parents: "p \<in> set cs \<and> concrete_polymorphic p"
    if "x \<in> set cs" "issubclass x BasePolymorphicModel" "p \<in> set (concrete_parents [x])" for x p
  proof -
    from register_all_parents_registered [OF ok that] have "p \<in> set cs"
      by (simp add: empty_meta_def)
    moreover from that(3) have "concrete_polymorphic p"
      by (simp add: set_concrete_parents)
    ultimately show ?thesis by simp
  qed
  from register_all_has_concrete_parent [OF ok c] obtain p where "p \<in> set (concrete_parents [c])"
    by (cases "concrete_parents [c]") auto
  with parents [OF c] have "?S p" by simp
  from ex_has_least_nat [of ?S p size] obtain r
    where r: "r \<in> set cs" "concrete_polymorphic r"
      and least: "\<And>y. y \<in> set cs \<Longrightarrow> concrete_polymorphic y \<Longrightarrow> size r \<le> size y"
    using \<open>?S p\<close> by blast
  have poly: "issubclass r BasePolymorphicModel"
    using r(2) by (simp add: concrete_polymorphic_def)
  have "a = r" if a: "issubclass r a" "concrete_polymorphic a" for a
  proof (rule ccontr)
    assume "a \<noteq> r"
    with issubclass_size [OF a(1)] have "size a < size r" by simp
    moreover have "a \<in> set (concrete_parents [r])"
      using a by (simp add: set_concrete_parents)
    with parents [OF r(1) poly] a(2) have "size r \<le> size a"
      by (intro least) simp_all
    ultimately show False by simp
  qed
  with r(1) poly show ?thesis
    unfolding registered_root_flag [OF ok] by blast
qed

lemma registered_root_unique:
  assumes ok: "fst (register_all cs empty_meta) = None"
    and single: "single_inheritance leaf"
    and chain: "\<forall>c \<in> set cs. issubclass leaf c"
    and r: "is_polymorphic_root (snd (register_all cs empty_meta)) r = Some True"
    and r': "is_polymorphic_root (snd (register_all cs empty_meta)) r' = Some True"
  shows "r = r'"
proof -
  from r r' have reg: "r \<in> set cs" "r' \<in> set cs"
    and poly: "issubclass r BasePolymorphicModel" "issubclass r' BasePolymorphicModel"
    and top: "\<And>a. issubclass r a \<Longrightarrow> concrete_polymorphic a \<Longrightarrow> a = r"
      "\<And>a. issubclass r' a \<Longrightarrow> concrete_polymorphic a \<Longrightarrow> a = r'"
    unfolding registered_root_flag [OF ok] by blast+
  have conc: "concrete_polymorphic x"
    if "x \<in> set cs" "issubclass x BasePolymorphicModel"
      "is_polymorphic_root (snd (register_all cs empty_meta)) x = Some True" for x
  proof -
    from register_all_has_concrete_parent [OF ok that(1,2)]
    have ne: "concrete_parents [x] \<noteq> []" .
    from register_all_flags [OF ok, of x] that have "last (concrete_parents [x]) = x"
      by simp
    with last_in_set [OF ne] have "x \<in> set (concrete_parents [x])" by simp
    then show ?thesis by (simp add: set_concrete_parents)
  qed
  from chain reg have "issubclass leaf r" "issubclass leaf r'" by blast+
  from single_inheritance_comparable [OF single this]
  show ?thesis
  proof
    assume "issubclass r r'"
    from top(1) [OF this conc [OF reg(2) poly(2) r']] show ?thesis by simp
  next
    assume "issubclass r' r"
    from top(2) [OF this conc [OF reg(1) poly(1) r]] show ?thesis .
  qed
qed

text \<open>
  Claim C9. When the preparation of a polymorphic class completes, its metadata marks it
  as the root if and only if no concrete polymorphic class other than itself is among its
  superclasses. So exactly one class is marked as the root once the classes of a hierarchy
  have been prepared, every preparation having succeeded: when the classes are those of
  one single-inheritance line, at least one of them polymorphic, and when they are a
  concrete polymorphic class with subclasses of it.
\<close>

theorem C9_polymorphic_root:
  "(issubclass sender BasePolymorphicModel
      \<longrightarrow> fst (prepare_polymorphic_model sender m) = None
      \<longrightarrow> is_polymorphic_root (snd (prepare_polymorphic_model sender m)) sender
            = Some (\<forall>a. issubclass sender a \<and> concrete_polymorphic a \<longrightarrow> a = sender))
   \<and> (single_inheritance leaf
      \<longrightarrow> fst (register_all cs empty_meta) = None
      \<longrightarrow> (\<forall>c \<in> set cs. issubclass leaf c)
      \<longrightarrow> (\<exists>c \<in> set cs. issubclass c BasePolymorphicModel)
      \<longrightarrow> (\<exists>!r. is_polymorphic_root (snd (register_all cs empty_meta)) r = Some True))
   \<and> (concrete_polymorphic base
      \<longrightarrow> base \<in> set ds
      \<longrightarrow> fst (register_all ds empty_meta) = None
      \<longrightarrow> (\<forall>c \<in> set ds. issubclass c base)
      \<longrightarrow> (\<forall>r. (is_polymorphic_root (snd (register_all ds empty_meta)) r = Some True)
                 = (r = base)))"
proof (intro conjI impI allI)
  assume "issubclass sender BasePolymorphicModel"
    and "fst (prepare_polymorphic_model sender m) = None"
  then show "is_polymorphic_root (snd (prepare_polymorphic_model sender m)) sender
            = Some (\<forall>a. issubclass sender a \<and> concrete_polymorphic a \<longrightarrow> a = sender)"
    by (rule prepare_root_flag)
next
  assume single: "single_inheritance leaf"
    and ok: "fst (register_all cs empty_meta) = None"
    and chain: "\<forall>c \<in> set cs. issubclass leaf c"
    and "\<exists>c \<in> set cs. issubclass c BasePolymorphicModel"
  then obtain c where "c \<in> set cs" "issubclass c BasePolymorphicModel" by blast
  from registered_root_exists [OF ok this] obtain r
    where "is_polymorphic_root (snd (register_all cs empty_meta)) r = Some True" ..
  then show "\<exists>!r. is_polymorphic_root (snd (register_all cs empty_meta)) r = Some True"
    using registered_root_unique [OF ok single chain] by blast
next
  fix r
  assume base: "concrete_polymorphic base" "base \<in> set ds"
    and ok: "fst (register_all ds empty_meta) = None"
    and below: "\<forall>c \<in> set ds. issubclass c base"
  have poly: "issubclass base BasePolymorphicModel"
    using base(1) by (simp add: concrete_polymorphic_def)
  have "a = base" if "issubclass base a" "concrete_polymorphic a" for a
  proof -
    have "a \<in> set (concrete_parents [base])"
      using that by (simp add: set_concrete_parents)
    from register_all_parents_registered [OF ok base(2) poly this] have "a \<in> set ds"
      by (simp add: empty_meta_def)
    with below have "issubclass a base" by blast
    from issubclass_antisym [OF this that(1)] show ?thesis .
  qed
  moreover have "r = base"
    if "r \<in> set ds" "\<forall>a. issubclass r a \<and> concrete_polymorphic a \<longrightarrow> a = r"
    using that below base(1) by blast
  ultimately
  show "(is_polymorphic_root (snd (register_all ds empty_meta)) r = Some True) = (r = base)"
    unfolding registered_root_flag [OF ok] using base(2) poly by blast
qed

theorem C9_polymorphic_root_witness:
  "is_polymorphic_root (snd (prepare_polymorphic_model Root empty_meta)) Root
     = Some (\<forall>a. issubclass Root a \<and> concrete_polymorphic a \<longrightarrow> a = Root)
   \<and> is_polymorphic_root (snd (prepare_polymorphic_model Root empty_meta)) Root = Some True
   \<and> (\<exists>!r. is_polymorphic_root (snd (register_all [Root, Middle, Leaf] empty_meta)) r = Some True)
   \<and> is_polymorphic_root (snd (register_all [Root, Middle, Leaf] empty_meta)) Root = Some True
   \<and> (\<forall>r. (is_polymorphic_root example_meta r = Some True) = (r = Root))"
proof -
  have sub: "issubclass Root BasePolymorphicModel"
    by code_simp
  have ok1: "fst (prepare_polymorphic_model Root empty_meta) = None"
    by code_simp
  have f1: "is_polymorphic_root (snd (prepare_polymorphic_model Root empty_meta)) Root = Some True"
    by code_simp
  have single: "single_inheritance Leaf"
    by code_simp
  have ok: "fst (register_all [Root, Middle, Leaf] empty_meta) = None"
    by code_simp
  have chain: "\<forall>c \<in> set [Root, Middle, Leaf]. issubclass Leaf c"
    by code_simp
  have f: "is_polymorphic_root (snd (register_all [Root, Middle, Leaf] empty_meta)) Root = Some True"
    by code_simp
  have base: "concrete_polymorphic Root"
    by code_simp
  have ok4: "fst (register_all [Root, Middle, Leaf, RootProxy] empty_meta) = None"
    by code_simp
  have below: "\<forall>c \<in> set [Root, Middle, Leaf, RootProxy]. issubclass c Root"
    by code_simp
  note c9 = C9_polymorphic_root [of Root empty_meta Leaf "[Root, Middle, Leaf]" Root
      "[Root, Middle, Leaf, RootProxy]"]
  from c9 sub ok1
  have a: "is_polymorphic_root (snd (prepare_polymorphic_model Root empty_meta)) Root
     = Some (\<forall>a. issubclass Root a \<and> concrete_polymorphic a \<longrightarrow> a = Root)"
    by blast
  from c9 single ok chain sub
  have b: "\<exists>!r. is_polymorphic_root (snd (register_all [Root, Middle, Leaf] empty_meta)) r = Some True"
    by simp
  from c9 base ok4 below
  have c: "\<forall>r. (is_polymorphic_root example_meta r = Some True) = (r = Root)"
    by (simp add: example_meta_def)
  from a f1 b f c show ?thesis by blast
qed

end
